theory Spec2Isabelle
  imports Main "HOL-Library.Sublist"
begin

section \<open>JSON values\<close>

text \<open>
  The recall records, the batch-write requests and the datastore's answers are all plain
  JSON values. Objects are association lists in enumeration order (the keys of one object
  are distinct); numbers are integers here, since no function below computes with them.
  The JavaScript value \<open>undefined\<close> is not a JSON value: a property that may be
  missing has type \<open>json option\<close>.
\<close>

datatype json =
    JNull
  | JBool bool
  | JNum int
  | JStr string
  | JArr "json list"
  | JObj "(string \<times> json) list"

section \<open>The markup stripper (\<open>htmlStripper\<close>)\<close>

text \<open>
  The string case is \<^verbatim>\<open>data.replace(/(<([^>]+)>)|\r?\n|\r/ig, "")\<close>. The regular
  expression is tried at each position from the left, its alternatives in order: a tag (an
  opening angle bracket, the longest non-empty run of characters other than the closing
  bracket, and the closing bracket), then a line break (CR LF, LF or CR). A match is
  deleted and the scan goes on behind it; where nothing matches, the character is kept.
  \<open>match_tag\<close> and \<open>match_break\<close> return the text behind a match that starts at
  the head of their argument.
\<close>

fun match_tag :: "string \<Rightarrow> string option" where
  "match_tag [] = None"
| "match_tag (c # cs) =
     (if c = CHR ''<'' then
        (let body = takeWhile (\<lambda>x. x \<noteq> CHR ''>'') cs;
             rest = dropWhile (\<lambda>x. x \<noteq> CHR ''>'') cs
         in if body \<noteq> [] \<and> rest \<noteq> [] then Some (tl rest) else None)
      else None)"

fun match_break :: "string \<Rightarrow> string option" where
  "match_break [] = None"
| "match_break (c # cs) =
     (if c = CHR 0x0D then
        (case cs of d # ds \<Rightarrow> if d = CHR 0x0A then Some ds else Some cs | [] \<Rightarrow> Some cs)
      else if c = CHR 0x0A then Some cs
      else None)"

definition match_markup :: "string \<Rightarrow> string option" where
  "match_markup s = (case match_tag s of Some rest \<Rightarrow> Some rest | None \<Rightarrow> match_break s)"

lemma match_tag_shorter: "match_tag s = Some rest \<Longrightarrow> length rest < length s"
proof (cases s)
  case Nil
  assume "match_tag s = Some rest"
  with Nil show ?thesis by simp
next
  case (Cons c cs)
  assume m: "match_tag s = Some rest"
  let ?d = "dropWhile (\<lambda>x. x \<noteq> CHR ''>'') cs"
  from m Cons have r: "rest = tl ?d" and ne: "?d \<noteq> []"
    by (auto simp: Let_def split: if_splits)
  have "length ?d \<le> length cs" by (rule length_dropWhile_le)
  moreover from ne have "length (tl ?d) < length ?d" by (cases ?d) auto
  ultimately show ?thesis using r Cons by simp
qed

lemma match_break_shorter: "match_break s = Some rest \<Longrightarrow> length rest < length s"
  by (cases s) (auto split: if_splits list.splits)

lemma match_markup_shorter: "match_markup s = Some rest \<Longrightarrow> length rest < length s"
  by (auto simp: match_markup_def split: option.splits dest: match_tag_shorter match_break_shorter)

function replace_markup :: "string \<Rightarrow> string" where
  "replace_markup [] = []"
| "replace_markup (c # cs) =
     (case match_markup (c # cs) of
        Some rest \<Rightarrow> replace_markup rest
      | None \<Rightarrow> c # replace_markup cs)"
  by pat_completeness auto
termination
  by (relation "measure length") (auto dest: match_markup_shorter)

text \<open>
  \<open>htmlStripper\<close> replaces in strings, maps itself over arrays (\<open>R.map\<close>), and
  overwrites every property of an object with its stripped value. \<open>typeof null\<close> is
  \<open>'object'\<close> as well, and the \<open>for ... in\<close> loop over \<open>null\<close> has no
  iteration, so \<open>null\<close> falls through unchanged like numbers and booleans.
\<close>

fun htmlStripper :: "json \<Rightarrow> json" where
  "htmlStripper (JStr s) = JStr (replace_markup s)"
| "htmlStripper (JArr xs) = JArr (map htmlStripper xs)"
| "htmlStripper (JObj kvs) = JObj (map (\<lambda>(k, v). (k, htmlStripper v)) kvs)"
| "htmlStripper v = v"


lemma match_markup_suffix: "match_markup s = Some rest \<Longrightarrow> suffix rest s"
proof (cases s)
  case Nil
  assume "match_markup s = Some rest"
  with Nil show ?thesis by (simp add: match_markup_def)
next
  case (Cons c cs)
  assume m: "match_markup s = Some rest"
  let ?d = "dropWhile (\<lambda>x. x \<noteq> CHR ''>'') cs"
  have d: "suffix (tl ?d) cs"
    by (meson suffix_dropWhile suffix_order.trans suffix_tl)
  from m Cons d show ?thesis
    by (auto simp: match_markup_def Let_def suffix_Cons suffix_ConsI
             split: option.splits if_splits list.splits)
qed

lemma replace_markup_subseq: "subseq (replace_markup s) s"
proof (induction s rule: replace_markup.induct)
  case 1
  show ?case by simp
next
  case (2 c cs)
  show ?case
  proof (cases "match_markup (c # cs)")
    case None
    with 2 show ?thesis by simp
  next
    case (Some rest)
    with 2 have "subseq (replace_markup rest) rest" by simp
    moreover from Some have "subseq rest (c # cs)"
      using match_markup_suffix suffix_imp_subseq by blast
    ultimately show ?thesis using Some by (simp add: subseq_order.trans)
  qed
qed

lemma replace_markup_set: "set (replace_markup s) \<subseteq> set s"
proof (induction s rule: replace_markup.induct)
  case 1
  show ?case by simp
next
  case (2 c cs)
  show ?case
  proof (cases "match_markup (c # cs)")
    case None
    with 2 show ?thesis by auto
  next
    case (Some rest)
    with 2 have "set (replace_markup rest) \<subseteq> set rest" by simp
    moreover from Some have "set rest \<subseteq> set (c # cs)"
      by (intro set_mono_suffix match_markup_suffix)
    ultimately show ?thesis using Some by simp
  qed
qed

lemma match_markup_break: "c = CHR 0x0D \<or> c = CHR 0x0A \<Longrightarrow> match_markup (c # cs) \<noteq> None"
  by (auto simp: match_markup_def Let_def split: option.splits list.splits)

lemma replace_markup_no_breaks:
  "CHR 0x0D \<notin> set (replace_markup s) \<and> CHR 0x0A \<notin> set (replace_markup s)"
proof (induction s rule: replace_markup.induct)
  case 1
  show ?case by simp
next
  case (2 c cs)
  show ?case
  proof (cases "match_markup (c # cs)")
    case None
    then have "c \<noteq> CHR 0x0D" "c \<noteq> CHR 0x0A"
      using match_markup_break [of c cs] by auto
    with 2 None show ?thesis by simp
  next
    case (Some rest)
    with 2 show ?thesis by simp
  qed
qed

lemma match_break_None:
  "match_break (c # cs) = None \<longleftrightarrow> c \<noteq> CHR 0x0D \<and> c \<noteq> CHR 0x0A"
  by (cases cs) simp_all

lemma match_tag_other: "c \<noteq> CHR ''<'' \<Longrightarrow> match_tag (c # cs) = None"
  by simp

lemma match_markup_kept:
  assumes "match_markup (c # cs) = None"
  shows "match_markup (c # replace_markup cs) = None"
proof (cases "c = CHR ''<''")
  case False
  then have "match_markup (c # cs) = match_break (c # cs)"
    and "match_markup (c # replace_markup cs) = match_break (c # replace_markup cs)"
    unfolding match_markup_def by (simp_all only: match_tag_other [OF False] option.case)
  with assms show ?thesis by (simp add: match_break_None del: match_break.simps match_tag.simps)
next
  case True
  let ?P = "\<lambda>x. x \<noteq> CHR ''>''"
  have brk: "match_break (CHR ''<'' # xs) = None" for xs
    by (simp only: match_break_None) simp
  from assms True have "match_tag (CHR ''<'' # cs) = None"
    by (simp add: match_markup_def del: match_tag.simps split: option.splits)
  then have "takeWhile ?P cs = [] \<or> CHR ''>'' \<notin> set cs"
    by (auto simp: Let_def split: if_splits)
  then have "match_tag (CHR ''<'' # replace_markup cs) = None"
  proof
    assume "CHR ''>'' \<notin> set cs"
    with replace_markup_set [of cs] have "CHR ''>'' \<notin> set (replace_markup cs)" by blast
    then show ?thesis by (simp add: Let_def)
  next
    assume t: "takeWhile ?P cs = []"
    show ?thesis
    proof (cases cs)
      case Nil
      then show ?thesis by simp
    next
      case (Cons d ds)
      with t have "d = CHR ''>''" by (simp split: if_splits)
      with Cons show ?thesis by (simp add: match_markup_def)
    qed
  qed
  with True brk show ?thesis unfolding match_markup_def by simp
qed

lemma replace_markup_no_match:
  "suffix t (replace_markup s) \<Longrightarrow> match_markup t = None"
proof (induction s arbitrary: t rule: replace_markup.induct)
  case 1
  then show ?case by (simp add: match_markup_def)
next
  case (2 c cs)
  show ?case
  proof (cases "match_markup (c # cs)")
    case None
    with 2 have "t = c # replace_markup cs \<or> suffix t (replace_markup cs)"
      by (simp add: suffix_Cons)
    then show ?thesis using 2 None match_markup_kept by auto
  next
    case (Some rest)
    with 2 show ?thesis by simp
  qed
qed

lemma replace_markup_idem: "replace_markup (replace_markup s) = replace_markup s"
proof -
  have "\<And>u. (\<forall>t. suffix t u \<longrightarrow> match_markup t = None) \<Longrightarrow> replace_markup u = u"
  proof -
    fix u :: string
    show "(\<forall>t. suffix t u \<longrightarrow> match_markup t = None) \<Longrightarrow> replace_markup u = u"
      by (induction u) (auto simp: suffix_Cons)
  qed
  then show ?thesis using replace_markup_no_match by blast
qed


text \<open>
  The string leaves of a value, in enumeration order: the strings \<open>htmlStripper\<close>
  rewrites. Keys of objects are not leaves.
\<close>

fun string_leaves :: "json \<Rightarrow> string list" where
  "string_leaves (JStr s) = [s]"
| "string_leaves (JArr xs) = concat (map string_leaves xs)"
| "string_leaves (JObj kvs) = concat (map (\<lambda>(k, v). string_leaves v) kvs)"
| "string_leaves v = []"

lemma string_leaves_htmlStripper:
  "string_leaves (htmlStripper v) = map replace_markup (string_leaves v)"
proof (induction v)
  case (JArr xs)
  then have "map (string_leaves \<circ> htmlStripper) xs = map (map replace_markup \<circ> string_leaves) xs"
    by simp
  then have "concat (map (string_leaves \<circ> htmlStripper) xs)
           = concat (map (map replace_markup \<circ> string_leaves) xs)"
    by (rule arg_cong)
  then show ?case by (simp add: map_concat)
next
  case (JObj kvs)
  then have "map ((\<lambda>(k, v). string_leaves v) \<circ> (\<lambda>(k, v). (k, htmlStripper v))) kvs
           = map (map replace_markup \<circ> (\<lambda>(k, v). string_leaves v)) kvs"
    by (auto simp: snds.simps)
  then have "concat (map ((\<lambda>(k, v). string_leaves v) \<circ> (\<lambda>(k, v). (k, htmlStripper v))) kvs)
           = concat (map (map replace_markup \<circ> (\<lambda>(k, v). string_leaves v)) kvs)"
    by (rule arg_cong)
  then show ?case by (simp add: map_concat)
qed simp_all


text \<open>
  Claim C8 (markup stripper). For every JSON value \<open>v\<close>, the string leaves of
  \<open>htmlStripper v\<close> are the string leaves of \<open>v\<close> with the pattern replaced, in the
  same order; no leaf of the result contains a carriage return or a line feed, and the
  pattern (tag or line break) matches at no position of a leaf of the result; the
  replacement only deletes characters. Numbers, booleans and \<open>null\<close> are returned
  unchanged, arrays and objects are mapped element by element, and the two examples of the
  specification evaluate as stated: \<^verbatim>\<open>"<b>Recall</b> notice\n"\<close> becomes
  \<^verbatim>\<open>"Recall notice"\<close>, and \<^verbatim>\<open>{a: "<i>x</i>", b: [1, "<p>y</p>"]}\<close> becomes
  \<^verbatim>\<open>{a: "x", b: [1, "y"]}\<close>.
\<close>

theorem htmlStripper_strips_markup:
  "string_leaves (htmlStripper v) = map replace_markup (string_leaves v)
   \<and> (\<forall>l \<in> set (string_leaves (htmlStripper v)).
         CHR 0x0D \<notin> set l \<and> CHR 0x0A \<notin> set l \<and>
         (\<forall>t. suffix t l \<longrightarrow> match_markup t = None))
   \<and> subseq (replace_markup s) s
   \<and> htmlStripper (JStr s) = JStr (replace_markup s)
   \<and> htmlStripper JNull = JNull
   \<and> htmlStripper (JBool b) = JBool b
   \<and> htmlStripper (JNum n) = JNum n
   \<and> htmlStripper (JArr xs) = JArr (map htmlStripper xs)
   \<and> htmlStripper (JObj kvs) = JObj (map (\<lambda>(k, x). (k, htmlStripper x)) kvs)
   \<and> htmlStripper (JStr (''<b>Recall</b> notice'' @ [CHR 0x0A])) = JStr ''Recall notice''
   \<and> htmlStripper (JObj [(''a'', JStr ''<i>x</i>''), (''b'', JArr [JNum 1, JStr ''<p>y</p>''])])
       = JObj [(''a'', JStr ''x''), (''b'', JArr [JNum 1, JStr ''y''])]"
proof -
  have leaves: "string_leaves (htmlStripper v) = map replace_markup (string_leaves v)"
    by (rule string_leaves_htmlStripper)
  have clean: "\<forall>l \<in> set (string_leaves (htmlStripper v)).
         CHR 0x0D \<notin> set l \<and> CHR 0x0A \<notin> set l \<and>
         (\<forall>t. suffix t l \<longrightarrow> match_markup t = None)"
    unfolding leaves using replace_markup_no_breaks replace_markup_no_match by auto
  have ex1: "htmlStripper (JStr (''<b>Recall</b> notice'' @ [CHR 0x0A])) = JStr ''Recall notice''"
    by (simp add: match_markup_def)
  have ex2: "htmlStripper (JObj [(''a'', JStr ''<i>x</i>''), (''b'', JArr [JNum 1, JStr ''<p>y</p>''])])
       = JObj [(''a'', JStr ''x''), (''b'', JArr [JNum 1, JStr ''y''])]"
    by (simp add: match_markup_def)
  show ?thesis
    using leaves clean ex1 ex2 by (simp add: replace_markup_subseq)
qed

theorem htmlStripper_strips_markup_witness:
  "''y'' \<in> set (string_leaves (htmlStripper (JArr [JNum 1, JStr ''<p>y</p>''])))
   \<and> suffix ''y'' ''y''
   \<and> CHR 0x0A \<notin> set ''y'' \<and> match_markup ''y'' = None"
proof -
  have m: "''y'' \<in> set (string_leaves (htmlStripper (JArr [JNum 1, JStr ''<p>y</p>''])))"
    by (simp add: match_markup_def)
  from htmlStripper_strips_markup [of "JArr [JNum 1, JStr ''<p>y</p>'']"] m
  have "CHR 0x0A \<notin> set ''y'' \<and> (\<forall>t. suffix t ''y'' \<longrightarrow> match_markup t = None)"
    by blast
  with m show ?thesis by simp
qed

section \<open>Requests and their partition into chunks\<close>

text \<open>
  A batch-write request is \<^verbatim>\<open>{RequestItems: {[table]: items}}\<close>; \<open>request_items\<close>
  reads \<^verbatim>\<open>req.RequestItems[table]\<close> back. When the request holds more than 25 put
  requests, \<open>start\<close> moves them into \<open>multiRequest\<close>, 25 at a time, with
  \<^verbatim>\<open>splice(0, 25)\<close>, until the request's own list is empty. Otherwise
  \<open>multiRequest\<close> stays \<open>false\<close> (here \<open>None\<close>) and the request is used as it is.
  \<open>partition_requests\<close> returns the request and \<open>multiRequest\<close> as that code leaves
  them.
\<close>

definition mk_request :: "string \<Rightarrow> json \<Rightarrow> json" where
  "mk_request tbl items = JObj [(''RequestItems'', JObj [(tbl, items)])]"

definition request_items :: "string \<Rightarrow> json \<Rightarrow> json list" where
  "request_items tbl req =
     (case req of
        JObj kvs \<Rightarrow>
          (case map_of kvs ''RequestItems'' of
             Some (JObj ts) \<Rightarrow> (case map_of ts tbl of Some (JArr xs) \<Rightarrow> xs | _ \<Rightarrow> [])
           | _ \<Rightarrow> [])
      | _ \<Rightarrow> [])"

function splice_loop :: "string \<Rightarrow> json list \<Rightarrow> json list" where
  "splice_loop tbl items =
     (if length items > 0
      then mk_request tbl (JArr (take 25 items)) # splice_loop tbl (drop 25 items)
      else [])"
  by pat_completeness auto
termination
  by (relation "measure (\<lambda>(tbl, items). length items)") auto

definition partition_requests :: "string \<Rightarrow> json list \<Rightarrow> json \<times> json list option" where
  "partition_requests tbl items =
     (if length items > 25
      then (mk_request tbl (JArr []), Some (splice_loop tbl items))
      else (mk_request tbl (JArr items), None))"

lemma request_items_mk_request [simp]: "request_items tbl (mk_request tbl (JArr xs)) = xs"
  by (simp add: request_items_def mk_request_def)

declare splice_loop.simps [simp del]

lemma splice_loop_Nil [simp]: "splice_loop tbl [] = []"
  by (simp add: splice_loop.simps [of tbl "[]"])

lemma splice_loop_step:
  "items \<noteq> [] \<Longrightarrow>
   splice_loop tbl items = mk_request tbl (JArr (take 25 items)) # splice_loop tbl (drop 25 items)"
  by (subst splice_loop.simps) simp

lemma ceil_step:
  fixes n :: nat
  assumes "0 < n"
  shows "Suc ((n - 25 + 24) div 25) = (n + 24) div 25"
proof (cases "n < 25")
  case True
  with assms have "(n + 24) div 25 = 1" by (simp add: div_nat_eqI)
  with True show ?thesis by simp
next
  case False
  then have "(n + 24) div 25 = Suc ((n + 24 - 25) div 25)"
    by (simp add: le_div_geq)
  with False show ?thesis by simp
qed

lemma splice_loop_length: "length (splice_loop tbl items) = (length items + 24) div 25"
proof (induction tbl items rule: splice_loop.induct)
  case (1 tbl items)
  show ?case
  proof (cases "items = []")
    case True
    then show ?thesis by simp
  next
    case False
    with 1 have "length (splice_loop tbl items) = Suc ((length items - 25 + 24) div 25)"
      by (simp add: splice_loop_step)
    also from False have "\<dots> = (length items + 24) div 25"
      by (intro ceil_step) simp
    finally show ?thesis .
  qed
qed

lemma splice_loop_concat: "concat (map (request_items tbl) (splice_loop tbl items)) = items"
proof (induction tbl items rule: splice_loop.induct)
  case (1 tbl items)
  show ?case
  proof (cases "items = []")
    case True
    then show ?thesis by simp
  next
    case False
    with 1 show ?thesis by (simp add: splice_loop_step)
  qed
qed

lemma splice_loop_bound:
  "r \<in> set (splice_loop tbl items) \<Longrightarrow>
   request_items tbl r \<noteq> [] \<and> length (request_items tbl r) \<le> 25"
proof (induction tbl items rule: splice_loop.induct)
  case (1 tbl items)
  show ?case
  proof (cases "items = []")
    case True
    with 1(2) show ?thesis by simp
  next
    case False
    with 1 show ?thesis by (auto simp: splice_loop_step)
  qed
qed


text \<open>
  Claim C3 (partition). A sequence of at most 25 items is left as the single request, with
  no list of requests built; a sequence of \<open>N > 25\<close> items gives \<open>ceil (N / 25)\<close>
  requests (that is \<open>(N + 24) div 25\<close>), each of at most 25 items, whose items
  concatenated in order are the original sequence.
\<close>

theorem partition_requests_correct:
  "(length items \<le> 25 \<longrightarrow>
      partition_requests tbl items = (mk_request tbl (JArr items), None) \<and>
      request_items tbl (fst (partition_requests tbl items)) = items)
   \<and> (length items > 25 \<longrightarrow>
      (\<exists>rs. snd (partition_requests tbl items) = Some rs \<and>
            length rs = (length items + 24) div 25 \<and>
            (\<forall>r \<in> set rs. length (request_items tbl r) \<le> 25) \<and>
            concat (map (request_items tbl) rs) = items))"
  by (simp add: partition_requests_def splice_loop_length splice_loop_concat splice_loop_bound)

theorem partition_requests_correct_witness:
  "length (replicate 3 JNull) \<le> 25
   \<and> partition_requests ''t'' (replicate 3 JNull) = (mk_request ''t'' (JArr (replicate 3 JNull)), None)
   \<and> length (replicate 51 JNull) > 25
   \<and> (\<exists>rs. snd (partition_requests ''t'' (replicate 51 JNull)) = Some rs \<and>
            length rs = 3 \<and>
            (\<forall>r \<in> set rs. length (request_items ''t'' r) \<le> 25) \<and>
            concat (map (request_items ''t'') rs) = replicate 51 JNull)"
  using partition_requests_correct [of "replicate 3 JNull" "''t''"]
        partition_requests_correct [of "replicate 51 JNull" "''t''"]
  by simp

section \<open>JavaScript values and property reads\<close>

text \<open>
  Every \<open>throw\<close> and every rejected promise of the source is a value of \<open>err\<close>; a
  function that may raise returns \<open>err + 'a\<close>, with \<open>Inl\<close> the error.
  \<open>Uncaught\<close> is an error raised where no handler of the program can catch it, in the
  callback of a timer: it ends the process.
\<close>

datatype err =
    ProviderError string
  | TypeError string
  | ReferenceError string
  | IOError string
  | Uncaught string

text \<open>
  \<open>R.map\<close> and \<open>R.keys\<close> work on containers: an array or an object. The record set
  of a loader is a container (the staged files hold arrays; the retry path hands over
  whatever container the datastore returned), and a staged file that parses to a lone
  primitive is outside this model. \<open>container\<close> is \<^verbatim>\<open>Object(x) === x\<close>, the test
  \<open>R.keys\<close> makes before it lists any key.
\<close>

datatype dataset = DArr "json list" | DObj "(string \<times> json) list"

fun json_of :: "dataset \<Rightarrow> json" where
  "json_of (DArr xs) = JArr xs"
| "json_of (DObj kvs) = JObj kvs"

fun container :: "json option \<Rightarrow> dataset option" where
  "container (Some (JArr xs)) = Some (DArr xs)"
| "container (Some (JObj kvs)) = Some (DObj kvs)"
| "container _ = None"

text \<open>Decimal rendering of numbers, for template strings and array indices.\<close>

definition digit_char :: "nat \<Rightarrow> char" where
  "digit_char d = ''0123456789'' ! d"

function string_of_nat :: "nat \<Rightarrow> string" where
  "string_of_nat n =
     (if n < 10 then [digit_char n] else string_of_nat (n div 10) @ [digit_char (n mod 10)])"
  by pat_completeness auto
termination
  by (relation "measure id") auto

definition string_of_int :: "int \<Rightarrow> string" where
  "string_of_int i = (if i < 0 then CHR ''-'' # string_of_nat (nat (- i)) else string_of_nat (nat i))"

text \<open>
  \<open>truthy\<close> is JavaScript's \<open>ToBoolean\<close>, with \<open>None\<close> for \<open>undefined\<close>.
  \<open>R_keys\<close> lists the own enumerable keys of a container, \<open>length_of\<close> reads its
  \<open>length\<close> property: the number of elements of an array, and for an object whatever is
  stored under the key \<open>length\<close>, if anything. \<open>get_UnprocessedItems\<close> and
  \<open>get_length\<close> are the property reads \<^verbatim>\<open>res.UnprocessedItems\<close> and
  \<^verbatim>\<open>x.length\<close> on arbitrary values: reading a property of \<open>null\<close> or
  \<open>undefined\<close> raises a \<open>TypeError\<close>. The length of a string is only ever
  tested for being zero, so counting bytes instead of UTF-16 units makes no difference.
\<close>

fun truthy :: "json option \<Rightarrow> bool" where
  "truthy None = False"
| "truthy (Some JNull) = False"
| "truthy (Some (JBool b)) = b"
| "truthy (Some (JNum n)) = (n \<noteq> 0)"
| "truthy (Some (JStr s)) = (s \<noteq> [])"
| "truthy (Some (JArr xs)) = True"
| "truthy (Some (JObj kvs)) = True"

fun R_keys :: "dataset \<Rightarrow> string list" where
  "R_keys (DArr xs) = map string_of_nat [0..<length xs]"
| "R_keys (DObj kvs) = map fst kvs"

fun length_of :: "dataset \<Rightarrow> json option" where
  "length_of (DArr xs) = Some (JNum (int (length xs)))"
| "length_of (DObj kvs) = map_of kvs ''length''"

fun get_UnprocessedItems :: "json \<Rightarrow> err + json option" where
  "get_UnprocessedItems JNull = Inl (TypeError ''Cannot read property UnprocessedItems of null'')"
| "get_UnprocessedItems (JObj kvs) = Inr (map_of kvs ''UnprocessedItems'')"
| "get_UnprocessedItems v = Inr None"

fun get_length :: "json option \<Rightarrow> err + json option" where
  "get_length None = Inl (TypeError ''Cannot read property length of undefined'')"
| "get_length (Some JNull) = Inl (TypeError ''Cannot read property length of null'')"
| "get_length (Some (JStr s)) = Inr (Some (JNum (int (length s))))"
| "get_length (Some (JArr xs)) = Inr (length_of (DArr xs))"
| "get_length (Some (JObj kvs)) = Inr (length_of (DObj kvs))"
| "get_length (Some v) = Inr None"

section \<open>The loader and its collaborators\<close>

definition TABLE_NAME :: string where
  "TABLE_NAME = ''RecallsTestData-EN''"

text \<open>
  What a run does to the outside world is recorded as a trace of events, in order. The
  events of a child loader's \<open>start\<close> are nested in one \<open>EStart\<close> event of its
  parent, so that the submissions of each wave can be told apart. What the ticking status
  line writes is not part of the trace, only the start and the stop of its timer are.
\<close>

datatype event =
    EListTables
  | EPrompt
  | ECreateTable json
  | EBatchWrite json
  | ESleep nat
  | ESetInterval
  | EClearInterval
  | EWriteFile string "json option"
  | EReadFile string
  | EMkdir string
  | EFetch string
  | ELog string
  | ELogErr string err
  | ENewLoader dataset string "json option"
  | EStart "event list"

text \<open>
  An instance of the class \<open>DataLoader\<close>. The constructor assigns \<open>data\<close>,
  \<open>table\<close>, \<open>category\<close>, \<open>textInterval\<close>, \<open>dots\<close> and
  \<open>dynamoHelper\<close> (the client, which is determined by the configuration it was built
  from), and the three wrappers around the client's methods. \<open>other_props\<close> holds
  every other own property of the object, by name; the constructor creates none.
\<close>

record loader =
  data :: dataset
  table :: string
  category :: "nat option"
  textInterval :: "nat option"
  dots :: string
  dynamoHelper :: "json option"
  other_props :: "string \<Rightarrow> json option"

definition DataLoader :: "dataset \<Rightarrow> string \<Rightarrow> json option \<Rightarrow> nat option \<Rightarrow> loader" where
  "DataLoader d t config cat =
     \<lparr> data = d, table = t, category = cat, textInterval = None, dots = ''...'',
       dynamoHelper = config, other_props = (\<lambda>p. None) \<rparr>"

text \<open>
  The collaborators: the SDK's converter, the datastore client (each call is given the
  configuration the client was built from), the operator at the prompt, the file system
  and the HTTP API. \<open>'w\<close> is the state of the outside world, which every call may
  change. \<open>fs_readFileSync\<close> stands for \<^verbatim>\<open>JSON.parse(fs.readFileSync(path, 'utf8'))\<close>
  and \<open>fetch\<close> for \<^verbatim>\<open>fetch(url)\<close> followed by \<^verbatim>\<open>.json()\<close>; the content of a
  written file is the value given to \<open>JSON.stringify\<close>, \<open>None\<close> when that value is
  \<open>undefined\<close>. \<open>stdout_isTTY\<close> tells whether standard output is a terminal.
\<close>

record 'w env =
  convert :: "json \<Rightarrow> json"
  aws_listTables :: "json option \<Rightarrow> 'w \<Rightarrow> (err + string list) \<times> 'w"
  aws_createTable :: "json option \<Rightarrow> json \<Rightarrow> 'w \<Rightarrow> (err + unit) \<times> 'w"
  aws_batchWriteItem :: "json option \<Rightarrow> json \<Rightarrow> 'w \<Rightarrow> (err + json) \<times> 'w"
  prompt :: "string \<Rightarrow> 'w \<Rightarrow> string \<times> 'w"
  fs_writeFileSync :: "string \<Rightarrow> json option \<Rightarrow> 'w \<Rightarrow> (err + unit) \<times> 'w"
  fs_readFileSync :: "string \<Rightarrow> 'w \<Rightarrow> (err + dataset) \<times> 'w"
  fs_existsSync :: "string \<Rightarrow> 'w \<Rightarrow> bool"
  fs_mkdirSync :: "string \<Rightarrow> 'w \<Rightarrow> (err + unit) \<times> 'w"
  fetch :: "string \<Rightarrow> 'w \<Rightarrow> (err + json) \<times> 'w"
  stdout_isTTY :: bool

definition listTables :: "'w env \<Rightarrow> loader \<Rightarrow> 'w \<Rightarrow> (err + string list) \<times> 'w" where
  "listTables env this = aws_listTables env (dynamoHelper this)"

definition createTable :: "'w env \<Rightarrow> loader \<Rightarrow> json \<Rightarrow> 'w \<Rightarrow> (err + unit) \<times> 'w" where
  "createTable env this = aws_createTable env (dynamoHelper this)"

definition batchWriteItem :: "'w env \<Rightarrow> loader \<Rightarrow> json \<Rightarrow> 'w \<Rightarrow> (err + json) \<times> 'w" where
  "batchWriteItem env this = aws_batchWriteItem env (dynamoHelper this)"

section \<open>Mapping the records into put requests\<close>

text \<open>
  \<open>mapRequest\<close> overwrites every enumerable property of its argument with the
  converter's output and returns the argument. \<open>mapRequest_value\<close> is the value it
  returns: an object or an array with every element converted; a number, a boolean or
  \<open>null\<close> as it is (the loop has no iteration); a non-empty string raises a
  \<open>TypeError\<close>, since class bodies are strict code and the characters of a string are
  read-only. The store-level view of the same method, with the mutation, is in Section
  ``The record mapper and the caller's object''.
\<close>

fun mapRequest_value :: "(json \<Rightarrow> json) \<Rightarrow> json \<Rightarrow> err + json" where
  "mapRequest_value conv (JObj kvs) = Inr (JObj (map (\<lambda>(k, v). (k, conv v)) kvs))"
| "mapRequest_value conv (JArr xs) = Inr (JArr (map conv xs))"
| "mapRequest_value conv (JStr s) =
     (if s = [] then Inr (JStr s)
      else Inl (TypeError ''Cannot assign to read only property 0 of string''))"
| "mapRequest_value conv v = Inr v"

definition put_request :: "(json \<Rightarrow> json) \<Rightarrow> json \<Rightarrow> err + json" where
  "put_request conv Item =
     (case mapRequest_value conv Item of
        Inl e \<Rightarrow> Inl e
      | Inr i \<Rightarrow> Inr (JObj [(''PutRequest'', JObj [(''Item'', i)])]))"

fun map_items :: "(json \<Rightarrow> json) \<Rightarrow> json list \<Rightarrow> err + json list" where
  "map_items conv [] = Inr []"
| "map_items conv (x # xs) =
     (case put_request conv x of
        Inl e \<Rightarrow> Inl e
      | Inr r \<Rightarrow> (case map_items conv xs of Inl e \<Rightarrow> Inl e | Inr rs \<Rightarrow> Inr (r # rs)))"

fun map_values :: "(json \<Rightarrow> json) \<Rightarrow> (string \<times> json) list \<Rightarrow> err + (string \<times> json) list" where
  "map_values conv [] = Inr []"
| "map_values conv ((k, x) # kvs) =
     (case put_request conv x of
        Inl e \<Rightarrow> Inl e
      | Inr r \<Rightarrow> (case map_values conv kvs of Inl e \<Rightarrow> Inl e | Inr rs \<Rightarrow> Inr ((k, r) # rs)))"

fun build_items :: "(json \<Rightarrow> json) \<Rightarrow> dataset \<Rightarrow> err + dataset" where
  "build_items conv (DArr xs) =
     (case map_items conv xs of Inl e \<Rightarrow> Inl e | Inr rs \<Rightarrow> Inr (DArr rs))"
| "build_items conv (DObj kvs) =
     (case map_values conv kvs of Inl e \<Rightarrow> Inl e | Inr rs \<Rightarrow> Inr (DObj rs))"

text \<open>
  \<^verbatim>\<open>request.RequestItems[this.table].length > 25\<close> compares the number of elements of
  an array; for an object the left-hand side is \<open>undefined\<close> or a put-request object,
  and the comparison is false. \<open>multi_requests\<close> are the requests held by
  \<open>multiRequest\<close>, none when it is \<open>false\<close>.
\<close>

fun split_requests :: "string \<Rightarrow> dataset \<Rightarrow> json \<times> json list option" where
  "split_requests tbl (DArr rs) = partition_requests tbl rs"
| "split_requests tbl (DObj kvs) = (mk_request tbl (JObj kvs), None)"

fun multi_requests :: "json list option \<Rightarrow> json list" where
  "multi_requests None = []"
| "multi_requests (Some reqs) = reqs"

definition multi_length :: "json list option \<Rightarrow> bool" where
  "multi_length multiRequest = (multi_requests multiRequest \<noteq> [])"

section \<open>The table check\<close>

text \<open>The operator's answer is tested with \<^verbatim>\<open>/^y(?:es)?$/i\<close>.\<close>

fun yes_answer :: "string \<Rightarrow> bool" where
  "yes_answer [y] = (y = CHR ''y'' \<or> y = CHR ''Y'')"
| "yes_answer [y, e, s] =
     ((y = CHR ''y'' \<or> y = CHR ''Y'') \<and> (e = CHR ''e'' \<or> e = CHR ''E'')
      \<and> (s = CHR ''s'' \<or> s = CHR ''S''))"
| "yes_answer a = False"

definition table_params :: json where
  "table_params = JObj
     [(''TableName'', JStr TABLE_NAME),
      (''KeySchema'', JArr [JObj [(''AttributeName'', JStr ''recallId''), (''KeyType'', JStr ''HASH'')]]),
      (''AttributeDefinitions'',
         JArr [JObj [(''AttributeName'', JStr ''recallId''), (''AttributeType'', JStr ''S'')]]),
      (''ProvisionedThroughput'',
         JObj [(''ReadCapacityUnits'', JNum 1), (''WriteCapacityUnits'', JNum 1)])]"

definition missing_question :: string where
  "missing_question = ''Table, '' @ [CHR 0x27] @ TABLE_NAME @ [CHR 0x27]
      @ '' can'' @ [CHR 0x27] @ ''t be found, would you like to create it? [y/n] ''"

definition table_missing :: "'w env \<Rightarrow> loader \<Rightarrow> 'w \<Rightarrow> (err + unit) \<times> event list \<times> 'w" where
  "table_missing env this w =
     (case prompt env missing_question w of
        (answer, w1) \<Rightarrow>
          if yes_answer answer then
            (case createTable env this table_params w1 of
               (Inl e, w2) \<Rightarrow> (Inl e, [EPrompt, ECreateTable table_params], w2)
             | (Inr u, w2) \<Rightarrow>
                 (Inr (), [EPrompt, ECreateTable table_params,
                           ELog ''Please manually check that the table has been properly created''], w2))
          else (Inr (), [EPrompt, ELog '' - ABORTING.''], w1))"

section \<open>Dry run\<close>

definition category_string :: "nat option \<Rightarrow> string" where
  "category_string c = (case c of None \<Rightarrow> ''undefined'' | Some i \<Rightarrow> string_of_nat i)"

definition debug_filename :: "loader \<Rightarrow> string" where
  "debug_filename this = ''./_raw/'' @ category_string (category this) @ ''-DEBUG.json''"

definition dry_run ::
  "'w env \<Rightarrow> loader \<Rightarrow> json \<Rightarrow> json list option \<Rightarrow> 'w \<Rightarrow> (err + unit) \<times> event list \<times> 'w" where
  "dry_run env this request multiRequest w =
     (let content = (if multi_length multiRequest then JArr (multi_requests multiRequest)
                     else request);
          tr = [ELog ''Dry run enabled, writing request object'',
                EWriteFile (debug_filename this) (Some content)]
      in case fs_writeFileSync env (debug_filename this) (Some content) w of
           (Inl e, w1) \<Rightarrow> (Inl e, tr, w1)
         | (Inr u, w1) \<Rightarrow> (Inr (), tr, w1))"

section \<open>Submission\<close>

text \<open>
  \<^verbatim>\<open>process.stdout.clearLine\<close> and \<open>cursorTo\<close> exist only when standard output
  is a terminal. Elsewhere the call \<^verbatim>\<open>process.stdout.clearLine()\<close> in \<open>start\<close>
  raises a \<open>TypeError\<close>, and so does the callback \<open>loadingText\<close> of the timer
  each time it fires, where nothing catches it. The timer is started before the first
  submission with a period of 250 ms. A call to the datastore is taken to return before
  the timer fires; the sleep of 1500 ms between two chunks is longer than the period, so
  off a terminal the process ends in the first sleep (\<open>tick\<close>).

  \<open>caught\<close> is the \<open>catch\<close> block of \<open>start\<close> followed by its final
  \<open>return\<close>: it stops the timer, clears the line and logs the error. Off a terminal
  the clearing raises in its turn, the error is not logged, and the promise of
  \<open>start\<close> rejects with the \<open>TypeError\<close>. An uncaught error never reaches the
  block.
\<close>

definition clearLine :: "'w env \<Rightarrow> err option" where
  "clearLine env =
     (if stdout_isTTY env then None
      else Some (TypeError ''process.stdout.clearLine is not a function''))"

definition tick :: "'w env \<Rightarrow> err option" where
  "tick env =
     (if stdout_isTTY env then None
      else Some (Uncaught ''process.stdout.clearLine is not a function''))"

fun caught :: "'w env \<Rightarrow> err \<Rightarrow> (err + unit) \<times> event list" where
  "caught env (Uncaught m) = (Inl (Uncaught m), [])"
| "caught env e =
     (case clearLine env of
        Some t \<Rightarrow> (Inl t, [EClearInterval])
      | None \<Rightarrow> (Inr (), [EClearInterval, ELogErr ''Error inserting data:'' e]))"

text \<open>
  The loop over \<open>multiRequest\<close> submits one chunk after the other and sleeps 1500 ms
  after each; the first rejected submission leaves the loop for the \<open>catch\<close>
  block of \<open>start\<close>.
\<close>

fun upload_chunks ::
  "'w env \<Rightarrow> loader \<Rightarrow> json list \<Rightarrow> 'w \<Rightarrow> (err + json list) \<times> event list \<times> 'w" where
  "upload_chunks env this [] w = (Inr [], [], w)"
| "upload_chunks env this (req # reqs) w =
     (case batchWriteItem env this req w of
        (Inl e, w1) \<Rightarrow> (Inl e, [EBatchWrite req], w1)
      | (Inr res, w1) \<Rightarrow>
          (case tick env of
             Some k \<Rightarrow> (Inl k, [EBatchWrite req, ESleep 1500], w1)
           | None \<Rightarrow>
               (case upload_chunks env this reqs w1 of
                  (Inl e, tr, w2) \<Rightarrow> (Inl e, EBatchWrite req # ESleep 1500 # tr, w2)
                | (Inr results, tr, w2) \<Rightarrow>
                    (Inr (res # results), EBatchWrite req # ESleep 1500 # tr, w2))))"

text \<open>
  The callback mapped over the results of a multi-chunk run. It reads
  \<^verbatim>\<open>res.UnprocessedItems.length\<close>; when that is truthy it logs the warning and then
  evaluates \<^verbatim>\<open>result.UnprocessedItems.length\<close>, where \<open>result\<close> is the
  \<open>const\<close> declared further down in the \<open>try\<close> block and not yet initialised:
  a \<open>ReferenceError\<close>. No callback awaits anything before it returns or throws, so
  all of them run, in order, and \<open>Promise.all\<close> rejects with the first error.
\<close>

definition check_result :: "json \<Rightarrow> event list \<times> err option" where
  "check_result res =
     (case get_UnprocessedItems res of
        Inl e \<Rightarrow> ([ELog ''Result:''], Some e)
      | Inr u \<Rightarrow>
          (case get_length u of
             Inl e \<Rightarrow> ([ELog ''Result:''], Some e)
           | Inr l \<Rightarrow>
               if truthy l
               then ([ELog ''Result:'', ELog ''Warning: one or more items was unable to be processed by AWS''],
                     Some (ReferenceError ''result is not defined''))
               else ([ELog ''Result:''], None)))"

fun check_results :: "json list \<Rightarrow> event list \<times> err option" where
  "check_results [] = ([], None)"
| "check_results (res # rest) =
     (case check_result res of
        (tr1, e1) \<Rightarrow>
          (case check_results rest of
             (tr2, e2) \<Rightarrow> (tr1 @ tr2, (case e1 of Some e \<Rightarrow> Some e | None \<Rightarrow> e2))))"

definition upload_multi ::
  "'w env \<Rightarrow> loader \<Rightarrow> json list \<Rightarrow> 'w \<Rightarrow> (err + unit) \<times> event list \<times> 'w" where
  "upload_multi env this multiRequest w =
     (case upload_chunks env this multiRequest w of
        (Inl e, tr, w1) \<Rightarrow>
          (case caught env e of (r, c) \<Rightarrow> (r, ESetInterval # tr @ c, w1))
      | (Inr results, tr, w1) \<Rightarrow>
          (case clearLine env of
             Some t \<Rightarrow>
               (case caught env t of
                  (r, c) \<Rightarrow> (r, ESetInterval # tr @ [EClearInterval] @ c, w1))
           | None \<Rightarrow>
               (case check_results results of
                  (tr2, rejected) \<Rightarrow>
                    let logged = ESetInterval # tr
                          @ [EClearInterval, ELog ''Data insertion complete! Results:''] @ tr2
                    in
                    (case rejected of
                       Some e \<Rightarrow> (case caught env e of (r, c) \<Rightarrow> (r, logged @ c, w1))
                     | None \<Rightarrow> (Inr (), logged, w1)))))"

text \<open>
  One wave: the body of \<open>start\<close> up to the point where it awaits a child loader.
  \<open>Done\<close> is the end of the run, with the value of the promise (\<open>Inl\<close> when it
  rejects); \<open>Retry\<close> carries the child loader that \<open>start\<close> has just constructed.
\<close>

datatype 'w step =
    Done "err + unit" "event list" 'w
  | Retry "event list" loader 'w

definition upload_single :: "'w env \<Rightarrow> loader \<Rightarrow> json \<Rightarrow> 'w \<Rightarrow> 'w step" where
  "upload_single env this request w =
     (case batchWriteItem env this request w of
        (Inl e, w1) \<Rightarrow>
          (case caught env e of
             (r, c) \<Rightarrow> Done r ([ESetInterval, EBatchWrite request] @ c) w1)
      | (Inr result, w1) \<Rightarrow>
          (case clearLine env of
             Some t \<Rightarrow>
               (case caught env t of
                  (r, c) \<Rightarrow> Done r ([ESetInterval, EBatchWrite request, EClearInterval] @ c) w1)
           | None \<Rightarrow>
               let done = [ESetInterval, EBatchWrite request, EClearInterval,
                           ELog ''Data insertion complete!'']
               in
               (case get_UnprocessedItems result of
                  Inl e \<Rightarrow> (case caught env e of (r, c) \<Rightarrow> Done r (done @ c) w1)
                | Inr u \<Rightarrow>
                    (case container u of
                       None \<Rightarrow> Done (Inr ()) done w1
                     | Some unprocessed \<Rightarrow>
                         if R_keys unprocessed = [] then Done (Inr ()) done w1
                         else
                           let warned = done @
                                 [ELog ''Warning: one or more items was unable to be processed by AWS (trying again)'']
                           in
                           if truthy (length_of unprocessed) then
                             Retry (warned @ [ENewLoader unprocessed (table this)
                                                (other_props this ''dynamoConfig'')])
                                   (DataLoader unprocessed (table this)
                                      (other_props this ''dynamoConfig'') None)
                                   w1
                           else Done (Inr ()) warned w1))))"

definition wave :: "'w env \<Rightarrow> loader \<Rightarrow> bool \<Rightarrow> 'w \<Rightarrow> 'w step" where
  "wave env this dry w =
     (case listTables env this w of
        (Inl e, w1) \<Rightarrow> Done (Inl e) [EListTables] w1
      | (Inr tableList, w1) \<Rightarrow>
          if TABLE_NAME \<notin> set tableList then
            (case table_missing env this w1 of (r, tr, w2) \<Rightarrow> Done r (EListTables # tr) w2)
          else
            (case build_items (convert env) (data this) of
               Inl e \<Rightarrow> Done (Inl e) [EListTables] w1
             | Inr items \<Rightarrow>
                 (case split_requests (table this) items of
                    (request, multiRequest) \<Rightarrow>
                      let pre = EListTables #
                            (if multiRequest = None then []
                             else [ELog ''Large request detected, chunking into safe requests...''])
                      in
                      if dry then
                        (case dry_run env this request multiRequest w1 of
                           (r, tr, w2) \<Rightarrow> Done r (pre @ tr) w2)
                      else if multi_length multiRequest then
                        (case upload_multi env this (multi_requests multiRequest) w1 of
                           (r, tr, w2) \<Rightarrow> Done r (pre @ tr) w2)
                      else
                        (case upload_single env this request w1 of
                           Done r tr w2 \<Rightarrow> Done r (pre @ tr) w2
                         | Retry tr child w2 \<Rightarrow> Retry (pre @ tr) child w2))))"

text \<open>
  \<open>start\<close> awaits the child's \<open>start()\<close>, called without an argument, so the
  child never runs dry. Nothing bounds the number of waves; the first argument is the
  number of waves allowed, and \<open>None\<close> means that it did not suffice.
\<close>

fun start ::
  "nat \<Rightarrow> 'w env \<Rightarrow> loader \<Rightarrow> bool \<Rightarrow> 'w \<Rightarrow> ((err + unit) \<times> event list \<times> 'w) option" where
  "start 0 env this dry w = None"
| "start (Suc n) env this dry w =
     (case wave env this dry w of
        Done r tr w1 \<Rightarrow> Some (r, tr, w1)
      | Retry tr child w1 \<Rightarrow>
          (case start n env child False w1 of
             None \<Rightarrow> None
           | Some (Inl e, ctr, w2) \<Rightarrow>
               (case caught env e of (r, c) \<Rightarrow> Some (r, tr @ [EStart ctr] @ c, w2))
           | Some (Inr u, ctr, w2) \<Rightarrow> Some (Inr (), tr @ [EStart ctr], w2)))"

section \<open>Test doubles\<close>

text \<open>
  Modelled from the spec: \<open>AWS.DynamoDB.Converter.input\<close> belongs to the SDK and is
  not part of the sources. The specification describes it as: string to
  \<^verbatim>\<open>{S: value}\<close>, number to \<^verbatim>\<open>{N: stringified value}\<close>, lists and maps
  recursively. The functions above take the converter as a parameter; this one is used
  where a concrete run is evaluated.
\<close>

fun converter_input :: "json \<Rightarrow> json" where
  "converter_input (JStr s) = JObj [(''S'', JStr s)]"
| "converter_input (JNum n) = JObj [(''N'', JStr (string_of_int n))]"
| "converter_input (JBool b) = JObj [(''BOOL'', JBool b)]"
| "converter_input JNull = JObj [(''NULL'', JBool True)]"
| "converter_input (JArr xs) = JObj [(''L'', JArr (map converter_input xs))]"
| "converter_input (JObj kvs) = JObj [(''M'', JObj (map (\<lambda>(k, v). (k, converter_input v)) kvs))]"

text \<open>
  A datastore that lists \<open>tables\<close>, answers the \<open>k\<close>-th batch write with
  \<open>answers k\<close> (the state of the world counts the batch writes), and an operator who
  answers \<open>answer\<close>, at a terminal.
\<close>

definition stub_env ::
  "string list \<Rightarrow> string \<Rightarrow> (nat \<Rightarrow> err + json) \<Rightarrow> nat env" where
  "stub_env tables answer answers =
     \<lparr> convert = converter_input,
       aws_listTables = (\<lambda>config w. (Inr tables, w)),
       aws_createTable = (\<lambda>config params w. (Inr (), w)),
       aws_batchWriteItem = (\<lambda>config request w. (answers w, Suc w)),
       prompt = (\<lambda>question w. (answer, w)),
       fs_writeFileSync = (\<lambda>path content w. (Inr (), w)),
       fs_readFileSync = (\<lambda>path w. (Inl (IOError ''ENOENT''), w)),
       fs_existsSync = (\<lambda>path w. True),
       fs_mkdirSync = (\<lambda>path w. (Inr (), w)),
       fetch = (\<lambda>url w. (Inl (IOError ''ECONNREFUSED''), w)),
       stdout_isTTY = True \<rparr>"

definition recall :: "nat \<Rightarrow> json" where
  "recall i = JObj [(''recallId'', JStr (string_of_nat i))]"

definition accepted :: json where
  "accepted = JObj [(''UnprocessedItems'', JObj [])]"

definition unprocessed_map :: "json list \<Rightarrow> json" where
  "unprocessed_map rs = JObj [(''UnprocessedItems'', JObj [(TABLE_NAME, JArr rs)])]"

definition unprocessed_array :: "json list \<Rightarrow> json" where
  "unprocessed_array rs = JObj [(''UnprocessedItems'', JArr rs)]"

text \<open>
  The fixtures of the concrete runs below: a datastore in which the table exists or not,
  the record set of a category, a loader as \<open>startLoading\<close> builds it, a datastore
  that rejects the first batch write, and the test whether the promise of \<open>start\<close>
  was rejected, which is how a failure would reach the caller.
\<close>

definition present_env :: "(nat \<Rightarrow> err + json) \<Rightarrow> nat env" where
  "present_env answers = stub_env [TABLE_NAME] ''n'' answers"

definition absent_env :: "string \<Rightarrow> nat env" where
  "absent_env answer = stub_env [] answer (\<lambda>k. Inr accepted)"

definition recalls :: "nat \<Rightarrow> dataset" where
  "recalls n = DArr (map recall [0..<n])"

definition category_loader :: "dataset \<Rightarrow> loader" where
  "category_loader d = DataLoader d TABLE_NAME (Some (JObj [(''region'', JStr ''ca-central-1'')])) (Some 1)"


definition rejected :: "((err + unit) \<times> event list \<times> 'w) option \<Rightarrow> bool" where
  "rejected run = (case run of Some (Inl e, tr, w) \<Rightarrow> True | _ \<Rightarrow> False)"

definition put_recall :: "nat \<Rightarrow> json" where
  "put_recall i = JObj [(''PutRequest'',
      JObj [(''Item'', JObj [(''recallId'', JObj [(''S'', JStr (string_of_nat i))])])])]"

lemma map_items_recalls: "map_items converter_input (map recall ks) = Inr (map put_recall ks)"
  by (induction ks) (simp_all add: put_request_def recall_def put_recall_def)

text \<open>
  A datastore that leaves one put request of its first batch write unprocessed: in the
  shape the provider documents, a map from the table name to the requests, and as a bare
  array.
\<close>

definition partially_accepted :: "nat \<Rightarrow> err + json" where
  "partially_accepted k = (if k = 0 then Inr (unprocessed_map [put_recall 1]) else Inr accepted)"

definition partially_accepted_array :: "nat \<Rightarrow> err + json" where
  "partially_accepted_array k =
     (if k = 0 then Inr (unprocessed_array [put_recall 1]) else Inr accepted)"

lemma build_items_recalls:
  "build_items converter_input (recalls k) = Inr (DArr (map put_recall [0..<k]))"
  by (simp add: recalls_def map_items_recalls)

section \<open>What a run did\<close>

text \<open>
  Projections of a trace: the batch writes submitted (at any depth, and by the top wave
  alone), the tables created, the files written, and the loaders constructed for a retry,
  each with its record set, table and client configuration. \<open>debug_content\<close> is what a
  dry run serialises: \<open>multiRequest\<close> when it holds requests, the request otherwise.
\<close>

fun step_trace :: "'w step \<Rightarrow> event list" where
  "step_trace (Done r tr w) = tr"
| "step_trace (Retry tr child w) = tr"

fun submitted :: "event \<Rightarrow> json list" where
  "submitted (EBatchWrite request) = [request]"
| "submitted (EStart tr) = concat (map submitted tr)"
| "submitted e = []"

definition submissions :: "event list \<Rightarrow> json list" where
  "submissions tr = concat (map submitted tr)"

fun own_submitted :: "event \<Rightarrow> json list" where
  "own_submitted (EBatchWrite request) = [request]"
| "own_submitted e = []"

definition own_submissions :: "event list \<Rightarrow> json list" where
  "own_submissions tr = concat (map own_submitted tr)"

fun created :: "event \<Rightarrow> json list" where
  "created (ECreateTable params) = [params]"
| "created (EStart tr) = concat (map created tr)"
| "created e = []"

definition creations :: "event list \<Rightarrow> json list" where
  "creations tr = concat (map created tr)"

fun written :: "event \<Rightarrow> (string \<times> json option) list" where
  "written (EWriteFile path content) = [(path, content)]"
| "written (EStart tr) = concat (map written tr)"
| "written e = []"

definition files_written :: "event list \<Rightarrow> (string \<times> json option) list" where
  "files_written tr = concat (map written tr)"

fun spawned :: "event \<Rightarrow> (dataset \<times> string \<times> json option) list" where
  "spawned (ENewLoader d t config) = [(d, t, config)]"
| "spawned (EStart tr) = concat (map spawned tr)"
| "spawned e = []"

definition loaders_spawned :: "event list \<Rightarrow> (dataset \<times> string \<times> json option) list" where
  "loaders_spawned tr = concat (map spawned tr)"

lemma submissions_simps [simp]:
  "submissions [] = []"
  "submissions (e # tr) = submitted e @ submissions tr"
  "submissions (tr @ tr') = submissions tr @ submissions tr'"
  by (simp_all add: submissions_def)

lemma own_submissions_simps [simp]:
  "own_submissions [] = []"
  "own_submissions (e # tr) = own_submitted e @ own_submissions tr"
  "own_submissions (tr @ tr') = own_submissions tr @ own_submissions tr'"
  by (simp_all add: own_submissions_def)

lemma creations_simps [simp]:
  "creations [] = []"
  "creations (e # tr) = created e @ creations tr"
  "creations (tr @ tr') = creations tr @ creations tr'"
  by (simp_all add: creations_def)

lemma files_written_simps [simp]:
  "files_written [] = []"
  "files_written (e # tr) = written e @ files_written tr"
  "files_written (tr @ tr') = files_written tr @ files_written tr'"
  by (simp_all add: files_written_def)

lemma loaders_spawned_simps [simp]:
  "loaders_spawned [] = []"
  "loaders_spawned (e # tr) = spawned e @ loaders_spawned tr"
  "loaders_spawned (tr @ tr') = loaders_spawned tr @ loaders_spawned tr'"
  by (simp_all add: loaders_spawned_def)

declare submitted.simps(2) [simp del] created.simps(2) [simp del]
  written.simps(2) [simp del] spawned.simps(2) [simp del]

lemma nested_simps [simp]:
  "submitted (EStart tr) = submissions tr"
  "created (EStart tr) = creations tr"
  "written (EStart tr) = files_written tr"
  "spawned (EStart tr) = loaders_spawned tr"
  by (simp_all add: submissions_def creations_def files_written_def loaders_spawned_def
        submitted.simps(2) created.simps(2) written.simps(2) spawned.simps(2))

definition trace_of :: "((err + unit) \<times> event list \<times> 'w) option \<Rightarrow> event list" where
  "trace_of run = (case run of Some (r, tr, w) \<Rightarrow> tr | None \<Rightarrow> [])"

definition debug_content :: "string \<Rightarrow> dataset \<Rightarrow> json" where
  "debug_content tbl items =
     (case split_requests tbl items of
        (request, None) \<Rightarrow> request
      | (request, Some reqs) \<Rightarrow> JArr reqs)"

lemma caught_quiet:
  "caught env e = (r, c) \<Longrightarrow>
   submissions c = [] \<and> own_submissions c = [] \<and> loaders_spawned c = []"
  by (cases e) (auto simp: split: option.splits)


lemma caught_off_terminal:
  "\<not> stdout_isTTY env \<Longrightarrow>
   caught env (ProviderError cause)
     = (Inl (TypeError ''process.stdout.clearLine is not a function''), [EClearInterval])"
  by (simp add: clearLine_def)

section \<open>The table-missing gate\<close>

lemma start_Done:
  "wave env this dry w = Done r tr w1 \<Longrightarrow> start (Suc n) env this dry w = Some (r, tr, w1)"
  by simp

lemma table_missing_run:
  assumes "prompt env missing_question w1 = (answer, w2)"
      and "createTable env this table_params w2 = (made, w3)"
  shows "table_missing env this w1 =
           (if yes_answer answer then
              (case made of
                 Inl e \<Rightarrow> (Inl e, [EPrompt, ECreateTable table_params], w3)
               | Inr u \<Rightarrow> (Inr (), [EPrompt, ECreateTable table_params,
                     ELog ''Please manually check that the table has been properly created''], w3))
            else (Inr (), [EPrompt, ELog '' - ABORTING.''], w2))"
  using assms by (simp add: table_missing_def split: sum.splits)

lemma wave_table_missing:
  assumes "listTables env this w = (Inr tableList, w1)"
      and "TABLE_NAME \<notin> set tableList"
      and "table_missing env this w1 = (r, tr, w2)"
  shows "wave env this dry w = Done r (EListTables # tr) w2"
  using assms by (simp add: wave_def)

text \<open>
  Claim C7 (table-missing gate). Whenever \<open>TABLE_NAME\<close>, the name every loader of
  this program is bound to, is absent from the listing, the run ends after one wave
  without a single batch write. If the operator answers yes, exactly one table is
  created, with the parameters of the source, and the run returns normally when the
  creation succeeds (a failed creation rejects the promise, again with nothing
  uploaded); if the operator declines, nothing is created and the run returns.
\<close>

theorem table_missing_gate:
  assumes "listTables env this w = (Inr tableList, w1)"
      and "TABLE_NAME \<notin> set tableList"
      and "prompt env missing_question w1 = (answer, w2)"
      and "createTable env this table_params w2 = (made, w3)"
  shows "\<exists>r tr w'. start (Suc n) env this dry w = Some (r, tr, w')
           \<and> submissions tr = []
           \<and> (yes_answer answer \<longrightarrow>
                 creations tr = [table_params] \<and> w' = w3 \<and> (made = Inr () \<longrightarrow> r = Inr ()))
           \<and> (\<not> yes_answer answer \<longrightarrow> creations tr = [] \<and> r = Inr () \<and> w' = w2)"
proof (cases "yes_answer answer")
  case False
  with assms have "table_missing env this w1 = (Inr (), [EPrompt, ELog '' - ABORTING.''], w2)"
    by (simp add: table_missing_run)
  with assms have "start (Suc n) env this dry w
      = Some (Inr (), [EListTables, EPrompt, ELog '' - ABORTING.''], w2)"
    by (simp add: wave_table_missing)
  with False show ?thesis by simp
next
  case True
  show ?thesis
  proof (cases made)
    case (Inl e)
    with True assms have "table_missing env this w1
        = (Inl e, [EPrompt, ECreateTable table_params], w3)"
      by (simp add: table_missing_run)
    with assms have "start (Suc n) env this dry w
        = Some (Inl e, [EListTables, EPrompt, ECreateTable table_params], w3)"
      by (simp add: wave_table_missing)
    with True Inl show ?thesis by simp
  next
    case (Inr u)
    with True assms have "table_missing env this w1
        = (Inr (), [EPrompt, ECreateTable table_params,
             ELog ''Please manually check that the table has been properly created''], w3)"
      by (simp add: table_missing_run)
    with assms have "start (Suc n) env this dry w
        = Some (Inr (), [EListTables, EPrompt, ECreateTable table_params,
             ELog ''Please manually check that the table has been properly created''], w3)"
      by (simp add: wave_table_missing)
    with True show ?thesis by simp
  qed
qed

theorem table_missing_gate_witness:
  "TABLE_NAME \<notin> set [] \<and> yes_answer ''yes'' \<and> \<not> yes_answer ''n''
   \<and> (\<exists>r tr w'. start (Suc 0) (absent_env ''yes'') (category_loader (recalls 2)) False 0 = Some (r, tr, w')
         \<and> submissions tr = [] \<and> creations tr = [table_params] \<and> r = Inr ())
   \<and> (\<exists>r tr w'. start (Suc 0) (absent_env ''n'') (category_loader (recalls 2)) False 0 = Some (r, tr, w')
         \<and> submissions tr = [] \<and> creations tr = [] \<and> r = Inr ())"
proof -
  have l: "listTables (absent_env a) (category_loader (recalls 2)) 0 = (Inr [], 0)" for a
    by (simp add: absent_env_def stub_env_def listTables_def)
  have p: "prompt (absent_env a) missing_question 0 = (a, 0)" for a
    by (simp add: absent_env_def stub_env_def)
  have c: "createTable (absent_env a) (category_loader (recalls 2)) table_params 0 = (Inr (), 0)" for a
    by (simp add: absent_env_def stub_env_def createTable_def)
  have n: "TABLE_NAME \<notin> set []" by simp
  show ?thesis
    using table_missing_gate [OF l [of "''yes''"] n p [of "''yes''"] c [of "''yes''"], of 0 False]
          table_missing_gate [OF l [of "''n''"] n p [of "''n''"] c [of "''n''"], of 0 False]
    by (simp del: start.simps) blast
qed

section \<open>Dry-run isolation\<close>

lemma splice_loop_nonempty: "items \<noteq> [] \<Longrightarrow> splice_loop tbl items \<noteq> []"
  by (simp add: splice_loop_step)

lemma split_requests_multi:
  "split_requests tbl items = (request, Some reqs) \<Longrightarrow> reqs \<noteq> []"
proof (cases items)
  case (DArr rs)
  assume "split_requests tbl items = (request, Some reqs)"
  with DArr have "25 < length rs" and "reqs = splice_loop tbl rs"
    by (auto simp: partition_requests_def split: if_splits)
  moreover from \<open>25 < length rs\<close> have "rs \<noteq> []" by auto
  ultimately show ?thesis by (simp add: splice_loop_nonempty)
next
  case (DObj kvs)
  assume "split_requests tbl items = (request, Some reqs)"
  with DObj show ?thesis by simp
qed

lemma table_missing_quiet:
  "table_missing env this w = (r, tr, w') \<Longrightarrow> submissions tr = [] \<and> files_written tr = []"
  by (auto simp: table_missing_def split: prod.splits sum.splits if_splits)

lemma dry_run_quiet:
  "dry_run env this request multiRequest w = (r, tr, w') \<Longrightarrow> submissions tr = []"
  by (auto simp: dry_run_def Let_def split: prod.splits sum.splits)

lemma wave_dry_quiet:
  "\<exists>r tr w'. wave env this True w = Done r tr w' \<and> submissions tr = []"
proof (cases "listTables env this w")
  case (Pair listed w1)
  show ?thesis
  proof (cases listed)
    case (Inl e)
    with Pair show ?thesis by (simp add: wave_def)
  next
    case (Inr tableList)
    show ?thesis
    proof (cases "TABLE_NAME \<in> set tableList")
      case False
      obtain r tr w2 where tm: "table_missing env this w1 = (r, tr, w2)"
        by (cases "table_missing env this w1") auto
      with Pair Inr False have "wave env this True w = Done r (EListTables # tr) w2"
        by (simp add: wave_table_missing)
      with tm show ?thesis by (simp add: table_missing_quiet)
    next
      case True
      show ?thesis
      proof (cases "build_items (convert env) (data this)")
        case (Inl e)
        with Pair Inr True show ?thesis by (simp add: wave_def)
      next
        case built: (Inr items)
        obtain request multiRequest where sp: "split_requests (table this) items = (request, multiRequest)"
          by (cases "split_requests (table this) items") auto
        obtain r tr w2 where dr: "dry_run env this request multiRequest w1 = (r, tr, w2)"
          by (cases "dry_run env this request multiRequest w1") auto
        from dr have "submissions tr = []" by (rule dry_run_quiet)
        with Pair Inr True built sp dr show ?thesis
          by (simp add: wave_def Let_def)
      qed
    qed
  qed
qed

lemma wave_dry_writes:
  assumes "listTables env this w = (Inr tableList, w1)"
      and "TABLE_NAME \<in> set tableList"
      and "build_items (convert env) (data this) = Inr items"
      and "fs_writeFileSync env (debug_filename this) (Some (debug_content (table this) items)) w1 = (res, w2)"
  shows "\<exists>pre. wave env this True w =
           Done res (pre @ [EWriteFile (debug_filename this) (Some (debug_content (table this) items))]) w2
         \<and> files_written pre = [] \<and> submissions pre = []"
proof -
  obtain request multiRequest where sp: "split_requests (table this) items = (request, multiRequest)"
    by (cases "split_requests (table this) items") auto
  have content: "(if multi_length multiRequest then JArr (multi_requests multiRequest) else request)
      = debug_content (table this) items"
    using sp split_requests_multi [of "table this" items request]
    by (cases multiRequest) (auto simp: debug_content_def multi_length_def)
  have res: "res = Inr () \<or> (\<exists>e. res = Inl e)" by (cases res) auto
  from assms sp content res show ?thesis
    by (cases res)
       (auto simp: wave_def dry_run_def Let_def)
qed

text \<open>
  Claim C5 (dry-run isolation). A dry run never submits a batch write, whatever the
  datastore, the operator and the file system do. The table check is the first step of
  every run and comes before the dry-run branch. Once it has passed (the listing
  succeeds and holds the table name) and the mapping of the records has raised nothing,
  the last thing the run does is to write the request, or the list of requests when
  there are more than 25 items, to the debug artifact \<^verbatim>\<open>{category}-DEBUG.json\<close> in the
  staging directory \<^verbatim>\<open>./_raw\<close>; nothing else is written, and the run ends as the
  write does. For an array of put requests the content is the list of chunks when there
  are more than 25 and the single request otherwise.
\<close>

theorem dry_run_isolation:
  "(\<exists>r tr w'. start (Suc n) env this True w = Some (r, tr, w') \<and> submissions tr = [])
   \<and> (listTables env this w = (Inr tableList, w1) \<longrightarrow> TABLE_NAME \<in> set tableList \<longrightarrow>
        build_items (convert env) (data this) = Inr items \<longrightarrow>
        fs_writeFileSync env (debug_filename this)
            (Some (debug_content (table this) items)) w1 = (res, w2) \<longrightarrow>
        (\<exists>pre. start (Suc n) env this True w =
                 Some (res,
                       pre @ [EWriteFile (''./_raw/'' @ category_string (category this) @ ''-DEBUG.json'')
                                (Some (debug_content (table this) items))],
                       w2)
              \<and> files_written pre = [] \<and> submissions pre = []))
   \<and> debug_content tbl (DArr puts) =
       (if 25 < length puts then JArr (splice_loop tbl puts) else mk_request tbl (JArr puts))"
proof -
  have quiet: "\<exists>r tr w'. start (Suc n) env this True w = Some (r, tr, w') \<and> submissions tr = []"
    using wave_dry_quiet [of env this w] by (auto simp: start_Done)
  have wr: "\<exists>pre. start (Suc n) env this True w =
                 Some (res,
                       pre @ [EWriteFile (''./_raw/'' @ category_string (category this) @ ''-DEBUG.json'')
                                (Some (debug_content (table this) items))],
                       w2)
              \<and> files_written pre = [] \<and> submissions pre = []"
    if "listTables env this w = (Inr tableList, w1)" "TABLE_NAME \<in> set tableList"
       "build_items (convert env) (data this) = Inr items"
       "fs_writeFileSync env (debug_filename this)
            (Some (debug_content (table this) items)) w1 = (res, w2)"
  proof -
    from wave_dry_writes [OF that] obtain pre where
      "wave env this True w =
         Done res (pre @ [EWriteFile (debug_filename this) (Some (debug_content (table this) items))]) w2"
      and "files_written pre = []" and "submissions pre = []"
      by blast
    then show ?thesis by (auto simp: start_Done debug_filename_def)
  qed
  have content: "debug_content tbl (DArr puts) =
       (if 25 < length puts then JArr (splice_loop tbl puts) else mk_request tbl (JArr puts))"
    by (simp add: debug_content_def partition_requests_def)
  from quiet wr content show ?thesis by blast
qed

theorem dry_run_isolation_witness:
  "TABLE_NAME \<in> set [TABLE_NAME]
   \<and> (\<exists>pre. start (Suc 0) (present_env (\<lambda>k. Inr accepted)) (category_loader (recalls 2)) True 0
          = Some (Inr (),
                  pre @ [EWriteFile ''./_raw/1-DEBUG.json''
                           (Some (mk_request TABLE_NAME (JArr [put_recall 0, put_recall 1])))],
                  0)
        \<and> files_written pre = [] \<and> submissions pre = [])"
proof -
  let ?env = "present_env (\<lambda>k. Inr accepted)"
  let ?dl = "category_loader (recalls 2)"
  let ?items = "DArr (map put_recall [0..<2])"
  have l: "listTables ?env ?dl 0 = (Inr [TABLE_NAME], 0)"
    by (simp add: present_env_def stub_env_def listTables_def)
  have m: "TABLE_NAME \<in> set [TABLE_NAME]" by simp
  have b: "build_items (convert ?env) (data ?dl) = Inr ?items"
    by (simp add: present_env_def stub_env_def category_loader_def DataLoader_def
                  build_items_recalls del: build_items.simps)
  have f: "fs_writeFileSync ?env (debug_filename ?dl)
             (Some (debug_content (table ?dl) ?items)) 0 = (Inr (), 0)"
    by (simp add: present_env_def stub_env_def)
  have c: "category_string (category ?dl) = ''1''"
    by (simp add: category_loader_def DataLoader_def category_string_def digit_char_def)
  have d: "debug_content (table ?dl) ?items
             = mk_request TABLE_NAME (JArr [put_recall 0, put_recall 1])"
    by (simp add: debug_content_def partition_requests_def category_loader_def DataLoader_def
                  upt_rec)
  from dry_run_isolation [where n = 0 and env = ?env and this = ?dl and w = 0
        and tableList = "[TABLE_NAME]" and items = ?items and res = "Inr ()"] l m b f
  have "\<exists>pre. start (Suc 0) ?env ?dl True 0
          = Some (Inr (),
                  pre @ [EWriteFile (''./_raw/'' @ category_string (category ?dl) @ ''-DEBUG.json'')
                           (Some (debug_content (table ?dl) ?items))],
                  0)
        \<and> files_written pre = [] \<and> submissions pre = []"
    by blast
  then show ?thesis unfolding c d by simp
qed

section \<open>Single request\<close>

lemma upload_single_trace:
  "\<exists>rest. step_trace (upload_single env this request w) = ESetInterval # EBatchWrite request # rest
        \<and> own_submissions rest = []"
  by (auto simp: upload_single_def Let_def split: prod.splits sum.splits option.splits
           dest: caught_quiet)

lemma wave_single:
  assumes "listTables env this w = (Inr tableList, w1)"
      and "TABLE_NAME \<in> set tableList"
      and "build_items (convert env) (data this) = Inr items"
      and "split_requests (table this) items = (request, None)"
  shows "wave env this False w =
           (case upload_single env this request w1 of
              Done r tr w2 \<Rightarrow> Done r (EListTables # tr) w2
            | Retry tr child w2 \<Rightarrow> Retry (EListTables # tr) child w2)"
  using assms by (simp add: wave_def multi_length_def Let_def split: step.splits)

lemma start_own_submissions:
  "start (Suc n) env this dry w = Some (r, tr, w') \<Longrightarrow>
   own_submissions tr = own_submissions (step_trace (wave env this dry w))"
  by (cases "wave env this dry w")
     (auto split: option.splits sum.splits prod.splits dest: caught_quiet)

text \<open>
  Claim C10 (empty record set). With the table present and dry-run off, the wave of a
  loader whose record set is empty begins with the listing, the timer and one batch
  write whose put-request list for the table is empty; that is the only batch write of
  this wave, and of every completed run of \<open>start\<close> at its own level.
\<close>

theorem empty_input_submits_once:
  assumes "listTables env this w = (Inr tableList, w1)"
      and "TABLE_NAME \<in> set tableList"
      and "data this = DArr []"
  shows "take 3 (step_trace (wave env this False w))
           = [EListTables, ESetInterval, EBatchWrite (mk_request (table this) (JArr []))]
       \<and> own_submissions (step_trace (wave env this False w)) = [mk_request (table this) (JArr [])]
       \<and> (\<forall>r tr w'. start (Suc n) env this False w = Some (r, tr, w') \<longrightarrow>
             own_submissions tr = [mk_request (table this) (JArr [])])"
proof -
  let ?req = "mk_request (table this) (JArr [])"
  from assms(3) have b: "build_items (convert env) (data this) = Inr (DArr [])" by simp
  have sp: "split_requests (table this) (DArr []) = (?req, None)"
    by (simp add: partition_requests_def)
  obtain rest where u: "step_trace (upload_single env this ?req w1) = ESetInterval # EBatchWrite ?req # rest"
    and r: "own_submissions rest = []"
    using upload_single_trace [of env this ?req w1] by blast
  have tr: "step_trace (wave env this False w) = EListTables # ESetInterval # EBatchWrite ?req # rest"
    using u by (cases "upload_single env this ?req w1")
               (simp_all add: wave_single [OF assms(1,2) b sp])
  with r show ?thesis by (auto simp: start_own_submissions)
qed

theorem empty_input_submits_once_witness:
  "TABLE_NAME \<in> set [TABLE_NAME]
   \<and> take 3 (step_trace (wave (present_env (\<lambda>k. Inr accepted)) (category_loader (DArr [])) False 0))
       = [EListTables, ESetInterval, EBatchWrite (mk_request TABLE_NAME (JArr []))]
   \<and> start (Suc 0) (present_env (\<lambda>k. Inr accepted)) (category_loader (DArr [])) False 0
       = Some (Inr (),
               [EListTables, ESetInterval, EBatchWrite (mk_request TABLE_NAME (JArr [])),
                EClearInterval, ELog ''Data insertion complete!''], 1)
   \<and> own_submissions [EListTables, ESetInterval, EBatchWrite (mk_request TABLE_NAME (JArr [])),
                EClearInterval, ELog ''Data insertion complete!'']
       = [mk_request TABLE_NAME (JArr [])]"
proof -
  let ?env = "present_env (\<lambda>k. Inr accepted)"
  let ?dl = "category_loader (DArr [])"
  have l: "listTables ?env ?dl 0 = (Inr [TABLE_NAME], 0)"
    by (simp add: present_env_def stub_env_def listTables_def)
  have m: "TABLE_NAME \<in> set [TABLE_NAME]" by simp
  have d: "data ?dl = DArr []" by (simp add: category_loader_def DataLoader_def)
  have t: "table ?dl = TABLE_NAME" by (simp add: category_loader_def DataLoader_def)
  have run: "start (Suc 0) ?env ?dl False 0
       = Some (Inr (),
               [EListTables, ESetInterval, EBatchWrite (mk_request TABLE_NAME (JArr [])),
                EClearInterval, ELog ''Data insertion complete!''], 1)"
    by (simp add: wave_def upload_single_def present_env_def stub_env_def listTables_def
                  batchWriteItem_def category_loader_def DataLoader_def partition_requests_def
                  multi_length_def accepted_def clearLine_def Let_def)
  from empty_input_submits_once [OF l m d, of 0] run show ?thesis
    unfolding t by (simp del: start.simps)
qed

section \<open>Abort on a submission error\<close>

lemma wave_multi:
  assumes "listTables env this w = (Inr tableList, w1)"
      and "TABLE_NAME \<in> set tableList"
      and "build_items (convert env) (data this) = Inr (DArr items)"
      and "25 < length items"
  shows "wave env this False w =
           (case upload_multi env this (splice_loop (table this) items) w1 of
              (r, tr, w2) \<Rightarrow>
                Done r (EListTables # ELog ''Large request detected, chunking into safe requests...'' # tr) w2)"
proof -
  from assms(4) have "items \<noteq> []" by auto
  then have "splice_loop (table this) items \<noteq> []" by (rule splice_loop_nonempty)
  with assms show ?thesis
    by (simp add: wave_def partition_requests_def multi_length_def Let_def split: prod.splits)
qed


lemma submission_error_off_terminal:
  assumes "listTables env this w = (Inr tableList, w1)"
      and "TABLE_NAME \<in> set tableList"
      and "build_items (convert env) (data this) = Inr (DArr items)"
      and "25 < length items"
      and "batchWriteItem env this (mk_request (table this) (JArr (take 25 items))) w1
             = (Inl (ProviderError cause), w2)"
      and "\<not> stdout_isTTY env"
  shows "start (Suc n) env this False w =
           Some (Inl (TypeError ''process.stdout.clearLine is not a function''),
                 [EListTables, ELog ''Large request detected, chunking into safe requests...'',
                  ESetInterval, EBatchWrite (mk_request (table this) (JArr (take 25 items))),
                  EClearInterval],
                 w2)"
proof -
  let ?first = "mk_request (table this) (JArr (take 25 items))"
  from assms(4) have ne: "items \<noteq> []" by auto
  have chunks: "upload_chunks env this (splice_loop (table this) items) w1
          = (Inl (ProviderError cause), [EBatchWrite ?first], w2)"
    using assms(5) by (simp add: splice_loop_step [OF ne])
  then have "upload_multi env this (splice_loop (table this) items) w1
          = (Inl (TypeError ''process.stdout.clearLine is not a function''),
             [ESetInterval, EBatchWrite ?first, EClearInterval], w2)"
    by (simp add: upload_multi_def caught_off_terminal [OF assms(6)] del: caught.simps)
  then show ?thesis
    by (simp add: wave_multi [OF assms(1-4)])
qed



section \<open>The retry of unprocessed items\<close>

text \<open>
  When a wave hands over a child loader: never in a dry run and never from a run of more
  than 25 items, and only when the container under \<open>UnprocessedItems\<close> has keys and a
  truthy \<open>length\<close> property. An array that is not empty has one; the map from table
  names to write requests that the provider returns has none, unless a table is called
  \<open>length\<close>.
\<close>

lemma upload_single_Retry_only:
  "upload_single env this request w = Retry tr child w' \<Longrightarrow>
   R_keys (data child) \<noteq> [] \<and> truthy (length_of (data child))"
  by (auto simp: upload_single_def Let_def DataLoader_def
           split: prod.splits sum.splits option.splits if_splits)

lemma retry_only_on_truthy_length:
  assumes "wave env this dry w = Retry tr child w'"
  shows "\<not> dry \<and> R_keys (data child) \<noteq> [] \<and> truthy (length_of (data child))
         \<and> (\<forall>puts. build_items (convert env) (data this) = Inr (DArr puts) \<longrightarrow> length puts \<le> 25)"
proof -
  obtain listed w1 where l: "listTables env this w = (listed, w1)"
    by (cases "listTables env this w") auto
  from assms l obtain tableList where li: "listed = Inr tableList"
    by (cases listed) (auto simp: wave_def)
  from assms l li have pres: "TABLE_NAME \<in> set tableList"
    by (auto simp: wave_def split: prod.splits if_splits)
  from assms l li pres obtain items where built: "build_items (convert env) (data this) = Inr items"
    by (cases "build_items (convert env) (data this)") (auto simp: wave_def)
  obtain request multiRequest where sp:
    "split_requests (table this) items = (request, multiRequest)"
    by (cases "split_requests (table this) items") auto
  from assms l li pres built sp
  have nd: "\<not> dry" and nm: "\<not> multi_length multiRequest"
    and "\<exists>tr1. upload_single env this request w1 = Retry tr1 child w'"
    by (auto simp: wave_def Let_def split: prod.splits if_splits step.splits)
  then obtain tr1 where us: "upload_single env this request w1 = Retry tr1 child w'" by blast
  have "length puts \<le> 25" if "items = DArr puts" for puts
  proof (rule ccontr)
    assume "\<not> length puts \<le> 25"
    then have big: "25 < length puts" by simp
    then have "puts \<noteq> []" by auto
    then have "splice_loop (table this) puts \<noteq> []" by (rule splice_loop_nonempty)
    with sp that big nm show False
      by (auto simp: partition_requests_def multi_length_def)
  qed
  with built nd upload_single_Retry_only [OF us] show ?thesis by auto
qed

text \<open>
  Claim C1 (retry termination), evaluated on the code. First run: two records, one
  chunk, and a datastore that returns one of the two put requests as unprocessed, under
  the table name, and would accept everything afterwards. The run logs the warning
  ``trying again'' and returns after this one wave: \<^verbatim>\<open>result.UnprocessedItems.length\<close>
  is \<open>undefined\<close> for a map, so no child loader is constructed and the item stays
  unprocessed, although a second wave was allowed. Second run: 26 records, two chunks,
  and the unprocessed request returned as an array. Both chunks are submitted, the
  callback logs the warning and then reads the variable \<open>result\<close>, which is not
  initialised at that point; the \<open>ReferenceError\<close> is logged and again no child
  loader is constructed.
\<close>

theorem retry_never_started:
  "start (Suc (Suc 0)) (present_env partially_accepted) (category_loader (recalls 2)) False 0
     = Some (Inr (),
             [EListTables, ESetInterval,
              EBatchWrite (mk_request TABLE_NAME (JArr [put_recall 0, put_recall 1])),
              EClearInterval, ELog ''Data insertion complete!'',
              ELog ''Warning: one or more items was unable to be processed by AWS (trying again)''],
             1)
   \<and> start (Suc (Suc 0)) (present_env partially_accepted_array) (category_loader (recalls 26)) False 0
     = Some (Inr (),
             [EListTables, ELog ''Large request detected, chunking into safe requests...'',
              ESetInterval,
              EBatchWrite (mk_request TABLE_NAME (JArr (map put_recall [0..<25]))), ESleep 1500,
              EBatchWrite (mk_request TABLE_NAME (JArr [put_recall 25])), ESleep 1500,
              EClearInterval, ELog ''Data insertion complete! Results:'',
              ELog ''Result:'', ELog ''Warning: one or more items was unable to be processed by AWS'',
              ELog ''Result:'',
              EClearInterval, ELogErr ''Error inserting data:'' (ReferenceError ''result is not defined'')],
             2)"
  by code_simp

section \<open>The configuration of a retry wave\<close>

text \<open>
  Only the single-request path can construct a child loader; every other way through a
  wave ends the run. The child is built from \<open>this.dynamoConfig\<close>, which is read
  among the other properties of the instance.
\<close>

lemma upload_chunks_no_spawn:
  "upload_chunks env this reqs w = (r, tr, w') \<Longrightarrow> loaders_spawned tr = []"
proof (induction reqs arbitrary: w r tr w')
  case Nil
  then show ?case by simp
next
  case (Cons req reqs)
  obtain a w1 where bw: "batchWriteItem env this req w = (a, w1)"
    by (cases "batchWriteItem env this req w") auto
  show ?case
  proof (cases a)
    case (Inl e)
    with Cons.prems bw show ?thesis by auto
  next
    case (Inr res)
    obtain r2 tr2 w2 where rest: "upload_chunks env this reqs w1 = (r2, tr2, w2)"
      by (cases "upload_chunks env this reqs w1") auto
    from Cons.IH [OF rest] have "loaders_spawned tr2 = []" .
    with Cons.prems bw Inr rest show ?thesis
      by (cases r2; cases "tick env") auto
  qed
qed

lemma check_result_no_spawn: "check_result res = (tr, e) \<Longrightarrow> loaders_spawned tr = []"
  by (auto simp: check_result_def split: sum.splits if_splits)

lemma check_results_no_spawn: "check_results rs = (tr, e) \<Longrightarrow> loaders_spawned tr = []"
proof (induction rs arbitrary: tr e)
  case Nil
  then show ?case by simp
next
  case (Cons res rs)
  obtain tr1 e1 where a: "check_result res = (tr1, e1)" by (cases "check_result res") auto
  obtain tr2 e2 where b: "check_results rs = (tr2, e2)" by (cases "check_results rs") auto
  from Cons.prems a b have "tr = tr1 @ tr2" by simp
  with check_result_no_spawn [OF a] Cons.IH [OF b] show ?case by simp
qed

lemma upload_multi_no_spawn:
  "upload_multi env this reqs w = (r, tr, w') \<Longrightarrow> loaders_spawned tr = []"
proof -
  assume run: "upload_multi env this reqs w = (r, tr, w')"
  obtain a tr1 w1 where up: "upload_chunks env this reqs w = (a, tr1, w1)"
    by (cases "upload_chunks env this reqs w") auto
  from upload_chunks_no_spawn [OF up] have s1: "loaders_spawned tr1 = []" .
  show ?thesis
  proof (cases a)
    case (Inl e)
    obtain r1 c where ca: "caught env e = (r1, c)" by (cases "caught env e")
    with run up Inl have "tr = ESetInterval # tr1 @ c" by (simp add: upload_multi_def)
    with s1 caught_quiet [OF ca] show ?thesis by simp
  next
    case (Inr results)
    show ?thesis
    proof (cases "clearLine env")
      case (Some t)
      obtain r1 c where ca: "caught env t = (r1, c)" by (cases "caught env t")
      with run up Inr Some have "tr = ESetInterval # tr1 @ [EClearInterval] @ c"
        by (simp add: upload_multi_def)
      with s1 caught_quiet [OF ca] show ?thesis by simp
    next
      case None
      obtain tr2 rej where ck: "check_results results = (tr2, rej)"
        by (cases "check_results results") auto
      from check_results_no_spawn [OF ck] have s2: "loaders_spawned tr2 = []" .
      let ?logged = "ESetInterval # tr1
                       @ [EClearInterval, ELog ''Data insertion complete! Results:''] @ tr2"
      from s1 s2 have sl: "loaders_spawned ?logged = []" by simp
      show ?thesis
      proof (cases rej)
        case None
        with run up Inr \<open>clearLine env = None\<close> ck have "tr = ?logged"
          by (simp add: upload_multi_def)
        with sl show ?thesis by simp
      next
        case (Some e)
        obtain r1 c where ca: "caught env e = (r1, c)" by (cases "caught env e")
        with run up Inr \<open>clearLine env = None\<close> ck Some have "tr = ?logged @ c"
          by (simp add: upload_multi_def)
        with sl caught_quiet [OF ca] show ?thesis by simp
      qed
    qed
  qed
qed

lemma table_missing_no_spawn:
  "table_missing env this w = (r, tr, w') \<Longrightarrow> loaders_spawned tr = []"
  by (auto simp: table_missing_def split: prod.splits sum.splits if_splits)

lemma dry_run_no_spawn:
  "dry_run env this request multiRequest w = (r, tr, w') \<Longrightarrow> loaders_spawned tr = []"
  by (auto simp: dry_run_def Let_def split: prod.splits sum.splits)

lemma upload_single_Done:
  "upload_single env this request w = Done r tr w' \<Longrightarrow> loaders_spawned tr = []"
  by (auto simp: upload_single_def Let_def
           split: prod.splits sum.splits option.splits if_splits dest: caught_quiet)

lemma upload_single_Retry:
  "upload_single env this request w = Retry tr child w' \<Longrightarrow>
   \<exists>d. child = DataLoader d (table this) (other_props this ''dynamoConfig'') None
       \<and> loaders_spawned tr = [(d, table this, other_props this ''dynamoConfig'')]"
  by (auto simp: upload_single_def Let_def split: prod.splits sum.splits option.splits if_splits)

lemma wave_Done:
  assumes "wave env this dry w = Done r tr w'"
  shows "loaders_spawned tr = []"
proof -
  obtain listed w1 where l: "listTables env this w = (listed, w1)"
    by (cases "listTables env this w") auto
  show ?thesis
  proof (cases listed)
    case (Inl e)
    with assms l show ?thesis by (auto simp: wave_def)
  next
    case (Inr tableList)
    show ?thesis
    proof (cases "TABLE_NAME \<in> set tableList")
      case False
      obtain r1 tr1 w2 where tm: "table_missing env this w1 = (r1, tr1, w2)"
        by (cases "table_missing env this w1") auto
      with assms l Inr False have "tr = EListTables # tr1" by (simp add: wave_def)
      with table_missing_no_spawn [OF tm] show ?thesis by simp
    next
      case True
      show ?thesis
      proof (cases "build_items (convert env) (data this)")
        case (Inl e)
        with assms l Inr True show ?thesis by (auto simp: wave_def)
      next
        case built: (Inr items)
        obtain request multiRequest where sp:
          "split_requests (table this) items = (request, multiRequest)"
          by (cases "split_requests (table this) items") auto
        let ?pre = "EListTables #
                      (if multiRequest = None then []
                       else [ELog ''Large request detected, chunking into safe requests...''])"
        have pre: "loaders_spawned ?pre = []" by simp
        consider (dry) "dry" | (multi) "\<not> dry" "multi_length multiRequest"
          | (single) "\<not> dry" "\<not> multi_length multiRequest" by blast
        then show ?thesis
        proof cases
          case dry
          obtain r1 tr1 w2 where dr: "dry_run env this request multiRequest w1 = (r1, tr1, w2)"
            by (cases "dry_run env this request multiRequest w1") auto
          with assms l Inr True built sp dry have "tr = ?pre @ tr1"
            by (simp add: wave_def Let_def)
          with dry_run_no_spawn [OF dr] pre show ?thesis by simp
        next
          case multi
          obtain r1 tr1 w2 where um:
            "upload_multi env this (multi_requests multiRequest) w1 = (r1, tr1, w2)"
            by (cases "upload_multi env this (multi_requests multiRequest) w1") auto
          with assms l Inr True built sp multi have "tr = ?pre @ tr1"
            by (simp add: wave_def Let_def)
          with upload_multi_no_spawn [OF um] pre show ?thesis by simp
        next
          case single
          show ?thesis
          proof (cases "upload_single env this request w1")
            case (Done r1 tr1 w2)
            with assms l Inr True built sp single have "tr = ?pre @ tr1"
              by (simp add: wave_def Let_def)
            with upload_single_Done [OF Done] pre show ?thesis by simp
          next
            case (Retry tr1 child w2)
            with assms l Inr True built sp single show ?thesis
              by (simp add: wave_def Let_def)
          qed
        qed
      qed
    qed
  qed
qed

lemma wave_Retry:
  assumes "wave env this dry w = Retry tr child w'"
  shows "\<exists>d. child = DataLoader d (table this) (other_props this ''dynamoConfig'') None
           \<and> loaders_spawned tr = [(d, table this, other_props this ''dynamoConfig'')]"
proof -
  obtain listed w1 where l: "listTables env this w = (listed, w1)"
    by (cases "listTables env this w") auto
  from assms l obtain tableList where li: "listed = Inr tableList"
    by (cases listed) (auto simp: wave_def)
  from assms l li have pres: "TABLE_NAME \<in> set tableList"
    by (auto simp: wave_def split: prod.splits if_splits)
  from assms l li pres obtain items where built: "build_items (convert env) (data this) = Inr items"
    by (cases "build_items (convert env) (data this)") (auto simp: wave_def)
  obtain request multiRequest where sp:
    "split_requests (table this) items = (request, multiRequest)"
    by (cases "split_requests (table this) items") auto
  let ?pre = "EListTables #
                (if multiRequest = None then []
                 else [ELog ''Large request detected, chunking into safe requests...''])"
  from assms l li pres built sp
  have "\<exists>tr1. upload_single env this request w1 = Retry tr1 child w' \<and> tr = ?pre @ tr1"
    by (auto simp: wave_def Let_def split: prod.splits if_splits step.splits)
  then obtain tr1 where us: "upload_single env this request w1 = Retry tr1 child w'"
    and tr: "tr = ?pre @ tr1" by blast
  from upload_single_Retry [OF us] tr show ?thesis by auto
qed

lemma start_spawned:
  "other_props this ''dynamoConfig'' = None \<Longrightarrow>
   start fuel env this dry w = Some (r, tr, w') \<Longrightarrow>
   (d', t', config') \<in> set (loaders_spawned tr) \<Longrightarrow> config' = None \<and> t' = table this"
proof (induction fuel arbitrary: this dry w r tr w' d' t' config')
  case 0
  then show ?case by simp
next
  case (Suc n)
  show ?case
  proof (cases "wave env this dry w")
    case (Done r1 tr1 w1)
    with Suc.prems(2) have "tr = tr1" by simp
    with wave_Done [OF Done] Suc.prems(3) show ?thesis by simp
  next
    case (Retry tr1 child w1)
    from wave_Retry [OF Retry] Suc.prems(1) obtain d where
      child: "child = DataLoader d (table this) None None"
      and own: "loaders_spawned tr1 = [(d, table this, None)]" by auto
    from child have cp: "other_props child ''dynamoConfig'' = None"
      and ct: "table child = table this" by (simp_all add: DataLoader_def)
    from Suc.prems(2) Retry obtain rc ctr w2 where
      sub: "start n env child False w1 = Some (rc, ctr, w2)"
      and tr: "tr = tr1 @ [EStart ctr] \<or> (\<exists>c. tr = tr1 @ [EStart ctr] @ c \<and> loaders_spawned c = [])"
      by (auto split: option.splits sum.splits prod.splits dest: caught_quiet)
    from tr own have "set (loaders_spawned tr) = {(d, table this, None)} \<union> set (loaders_spawned ctr)"
      by auto
    with Suc.prems(3) have "(d', t', config') = (d, table this, None)
        \<or> (d', t', config') \<in> set (loaders_spawned ctr)" by auto
    then show ?thesis
    proof
      assume "(d', t', config') = (d, table this, None)"
      then show ?thesis by simp
    next
      assume "(d', t', config') \<in> set (loaders_spawned ctr)"
      from Suc.IH [OF cp sub this] ct show ?thesis by simp
    qed
  qed
qed

text \<open>
  Claim C9 (client configuration of a retry wave). An instance built by the constructor
  has no property \<open>dynamoConfig\<close>, whatever configuration it was given, and no method
  adds one. So the child loader that a wave hands over is bound to the parent's table and
  has a client built from an undefined configuration, and in every completed run of
  \<open>start\<close> each loader constructed for a retry, at any depth, was given the
  configuration \<open>undefined\<close> and the table of the first loader.
\<close>

theorem retry_client_unconfigured:
  "other_props (DataLoader d t config cat) ''dynamoConfig'' = None
   \<and> (wave env (DataLoader d t config cat) dry w = Retry tr0 child w0 \<longrightarrow>
        dynamoHelper child = None \<and> table child = t)
   \<and> (start fuel env (DataLoader d t config cat) dry w = Some (r, tr, w') \<longrightarrow>
        (\<forall>(d', t', config') \<in> set (loaders_spawned tr). config' = None \<and> t' = t))"
proof -
  have p: "other_props (DataLoader d t config cat) ''dynamoConfig'' = None"
    and t: "table (DataLoader d t config cat) = t"
    by (simp_all add: DataLoader_def)
  have "dynamoHelper child = None \<and> table child = t"
    if "wave env (DataLoader d t config cat) dry w = Retry tr0 child w0"
    using wave_Retry [OF that] p t by (auto simp: DataLoader_def)
  moreover have "\<forall>(d', t', config') \<in> set (loaders_spawned tr). config' = None \<and> t' = t"
    if "start fuel env (DataLoader d t config cat) dry w = Some (r, tr, w')"
    using start_spawned [OF p that] t by auto
  ultimately show ?thesis using p by blast
qed

theorem retry_client_unconfigured_witness:
  "start (Suc (Suc 0)) (present_env partially_accepted_array) (category_loader (recalls 2)) False 0
      \<noteq> None
   \<and> loaders_spawned (trace_of
         (start (Suc (Suc 0)) (present_env partially_accepted_array) (category_loader (recalls 2)) False 0))
       = [(DArr [put_recall 1], TABLE_NAME, None)]
   \<and> list_all (\<lambda>(d', t', config'). config' = None \<and> t' = TABLE_NAME)
         (loaders_spawned (trace_of
           (start (Suc (Suc 0)) (present_env partially_accepted_array) (category_loader (recalls 2)) False 0)))"
proof -
  let ?run = "start (Suc (Suc 0)) (present_env partially_accepted_array)
                (category_loader (recalls 2)) False 0"
  have some: "?run \<noteq> None" by code_simp
  have one: "loaders_spawned (trace_of ?run) = [(DArr [put_recall 1], TABLE_NAME, None)]"
    by code_simp
  from some obtain r tr w' where run: "?run = Some (r, tr, w')" by auto
  from retry_client_unconfigured
         [of "recalls 2" TABLE_NAME "Some (JObj [(''region'', JStr ''ca-central-1'')])" "Some 1"
             "present_env partially_accepted_array" False 0 _ _ _ "Suc (Suc 0)" r tr w']
       run
  have "\<forall>(d', t', config') \<in> set (loaders_spawned tr). config' = None \<and> t' = TABLE_NAME"
    unfolding category_loader_def by blast
  with run have "list_all (\<lambda>(d', t', config'). config' = None \<and> t' = TABLE_NAME)
         (loaders_spawned (trace_of ?run))"
    by (simp add: trace_of_def list_all_iff del: start.simps)
  with some one show ?thesis by blast
qed

section \<open>The fetch and clean stages\<close>

text \<open>
  \<open>getRecentData\<close> and \<open>cleanData\<close> each run the loop over the categories 1 to 4
  inside one \<open>try\<close> block. \<open>fetch_one\<close> and \<open>clean_one\<close> are one iteration of
  the loop body, \<open>fetch_loop\<close> and \<open>clean_loop\<close> the loop over the categories
  still to come, which ends at the first iteration that throws; the \<open>catch\<close> block
  logs the error and the function returns. \<open>ensure_raw\<close> is the creation of the
  directory, which is inside the same \<open>try\<close> block.
\<close>

definition raw_path :: "nat \<Rightarrow> string" where
  "raw_path i = ''./_raw/'' @ string_of_nat i @ ''.json''"

definition stripped_path :: "nat \<Rightarrow> string" where
  "stripped_path i = ''./_raw/'' @ string_of_nat i @ ''-stripped.json''"

definition search_url :: "nat \<Rightarrow> string" where
  "search_url i =
     ''https://healthycanadians.gc.ca/recall-alert-rappel-avis/api/search?search=&lang=en&cat=''
       @ string_of_nat i @ ''&lim=250&off=0''"

fun get_results :: "json \<Rightarrow> err + json option" where
  "get_results JNull = Inl (TypeError ''Cannot read property results of null'')"
| "get_results (JObj kvs) = Inr (map_of kvs ''results'')"
| "get_results v = Inr None"

definition fetch_one :: "'w env \<Rightarrow> nat \<Rightarrow> 'w \<Rightarrow> (err + unit) \<times> event list \<times> 'w" where
  "fetch_one env i w =
     (case fetch env (search_url i) w of
        (Inl e, w1) \<Rightarrow> (Inl e, [EFetch (search_url i)], w1)
      | (Inr body, w1) \<Rightarrow>
          (case get_results body of
             Inl e \<Rightarrow> (Inl e, [EFetch (search_url i)], w1)
           | Inr recent \<Rightarrow>
               (case fs_writeFileSync env (raw_path i) recent w1 of
                  (Inl e, w2) \<Rightarrow>
                    (Inl e, [EFetch (search_url i), EWriteFile (raw_path i) recent], w2)
                | (Inr u, w2) \<Rightarrow>
                    (Inr (), [EFetch (search_url i), EWriteFile (raw_path i) recent,
                              ELog ('' - Created file: '' @ raw_path i)], w2))))"

fun fetch_loop :: "'w env \<Rightarrow> nat list \<Rightarrow> 'w \<Rightarrow> err option \<times> event list \<times> 'w" where
  "fetch_loop env [] w = (None, [], w)"
| "fetch_loop env (i # rest) w =
     (case fetch_one env i w of
        (Inl e, tr, w1) \<Rightarrow> (Some e, tr, w1)
      | (Inr u, tr, w1) \<Rightarrow>
          (case fetch_loop env rest w1 of (r, tr2, w2) \<Rightarrow> (r, tr @ tr2, w2)))"

definition ensure_raw :: "'w env \<Rightarrow> 'w \<Rightarrow> (err + unit) \<times> event list \<times> 'w" where
  "ensure_raw env w =
     (if fs_existsSync env ''./_raw'' w then (Inr (), [], w)
      else
        (case fs_mkdirSync env ''./_raw'' w of
           (r, w1) \<Rightarrow>
             (r, [ELog ''No ./_raw directory found, creating it now...'', EMkdir ''./_raw''], w1)))"

definition getRecentData :: "'w env \<Rightarrow> 'w \<Rightarrow> event list \<times> 'w" where
  "getRecentData env w =
     (case ensure_raw env w of
        (Inl e, tr, w1) \<Rightarrow> (tr @ [ELogErr ''Error fetching recent data:'' e], w1)
      | (Inr u, tr, w1) \<Rightarrow>
          (case fetch_loop env [1, 2, 3, 4] w1 of
             (None, tr2, w2) \<Rightarrow> (tr @ tr2, w2)
           | (Some e, tr2, w2) \<Rightarrow> (tr @ tr2 @ [ELogErr ''Error fetching recent data:'' e], w2)))"

fun R_map :: "(json \<Rightarrow> json) \<Rightarrow> dataset \<Rightarrow> dataset" where
  "R_map f (DArr xs) = DArr (map f xs)"
| "R_map f (DObj kvs) = DObj (map (\<lambda>(k, v). (k, f v)) kvs)"

definition clean_one :: "'w env \<Rightarrow> nat \<Rightarrow> 'w \<Rightarrow> (err + unit) \<times> event list \<times> 'w" where
  "clean_one env i w =
     (case fs_readFileSync env (raw_path i) w of
        (Inl e, w1) \<Rightarrow> (Inl e, [EReadFile (raw_path i)], w1)
      | (Inr d, w1) \<Rightarrow>
          (let content = Some (json_of (R_map htmlStripper d))
           in case fs_writeFileSync env (stripped_path i) content w1 of
                (Inl e, w2) \<Rightarrow>
                  (Inl e, [EReadFile (raw_path i), EWriteFile (stripped_path i) content], w2)
              | (Inr u, w2) \<Rightarrow>
                  (Inr (), [EReadFile (raw_path i), EWriteFile (stripped_path i) content], w2)))"

fun clean_loop :: "'w env \<Rightarrow> nat list \<Rightarrow> 'w \<Rightarrow> err option \<times> event list \<times> 'w" where
  "clean_loop env [] w = (None, [], w)"
| "clean_loop env (i # rest) w =
     (case clean_one env i w of
        (Inl e, tr, w1) \<Rightarrow> (Some e, tr, w1)
      | (Inr u, tr, w1) \<Rightarrow>
          (case clean_loop env rest w1 of (r, tr2, w2) \<Rightarrow> (r, tr @ tr2, w2)))"

definition cleanData :: "'w env \<Rightarrow> 'w \<Rightarrow> event list \<times> 'w" where
  "cleanData env w =
     (case clean_loop env [1, 2, 3, 4] w of
        (None, tr, w1) \<Rightarrow> (tr, w1)
      | (Some e, tr, w1) \<Rightarrow> (tr @ [ELogErr ''Error mapping test data:'' e], w1))"

text \<open>
  A world in which category \<open>k\<close> alone fails: its search request times out and its
  staged file does not exist. Every other request and file is fine. The state of the
  world counts the files written.
\<close>

definition stage_env :: "nat \<Rightarrow> nat env" where
  "stage_env k =
     \<lparr> convert = converter_input,
       aws_listTables = (\<lambda>config w. (Inr [TABLE_NAME], w)),
       aws_createTable = (\<lambda>config params w. (Inr (), w)),
       aws_batchWriteItem = (\<lambda>config request w. (Inr accepted, w)),
       prompt = (\<lambda>question w. (''n'', w)),
       fs_writeFileSync = (\<lambda>path content w. (Inr (), Suc w)),
       fs_readFileSync = (\<lambda>path w.
          if path = raw_path k then (Inl (IOError ''ENOENT''), w)
          else (Inr (DArr [JObj [(''title'', JStr ''<b>Recall</b>'')]]), w)),
       fs_existsSync = (\<lambda>path w. True),
       fs_mkdirSync = (\<lambda>path w. (Inr (), w)),
       fetch = (\<lambda>url w.
          if url = search_url k then (Inl (IOError ''ETIMEDOUT''), w)
          else (Inr (JObj [(''results'', JArr [recall 7])]), w)),
       stdout_isTTY = True \<rparr>"

lemma fetch_loop_abandons:
  "fetch_loop env pre w = (None, tr1, w1) \<Longrightarrow> fetch_one env i w1 = (Inl e, tr2, w2) \<Longrightarrow>
   fetch_loop env (pre @ i # post) w = (Some e, tr1 @ tr2, w2)"
proof (induction pre arbitrary: w tr1)
  case Nil
  then show ?case by simp
next
  case (Cons j pre)
  obtain a tr w' where one: "fetch_one env j w = (a, tr, w')"
    by (cases "fetch_one env j w") auto
  show ?case
  proof (cases a)
    case (Inl e')
    with Cons.prems(1) one show ?thesis by simp
  next
    case (Inr u)
    obtain r tr' w'' where rest: "fetch_loop env pre w' = (r, tr', w'')"
      by (cases "fetch_loop env pre w'") auto
    with Cons.prems(1) one Inr have "r = None" "tr1 = tr @ tr'" "w'' = w1" by simp_all
    with rest have "fetch_loop env pre w' = (None, tr', w1)" by simp
    from Cons.IH [OF this Cons.prems(2)] one Inr \<open>tr1 = tr @ tr'\<close> show ?thesis by simp
  qed
qed

lemma clean_loop_abandons:
  "clean_loop env pre w = (None, tr1, w1) \<Longrightarrow> clean_one env i w1 = (Inl e, tr2, w2) \<Longrightarrow>
   clean_loop env (pre @ i # post) w = (Some e, tr1 @ tr2, w2)"
proof (induction pre arbitrary: w tr1)
  case Nil
  then show ?case by simp
next
  case (Cons j pre)
  obtain a tr w' where one: "clean_one env j w = (a, tr, w')"
    by (cases "clean_one env j w") auto
  show ?case
  proof (cases a)
    case (Inl e')
    with Cons.prems(1) one show ?thesis by simp
  next
    case (Inr u)
    obtain r tr' w'' where rest: "clean_loop env pre w' = (r, tr', w'')"
      by (cases "clean_loop env pre w'") auto
    with Cons.prems(1) one Inr have "r = None" "tr1 = tr @ tr'" "w'' = w1" by simp_all
    with rest have "clean_loop env pre w' = (None, tr', w1)" by simp
    from Cons.IH [OF this Cons.prems(2)] one Inr \<open>tr1 = tr @ tr'\<close> show ?thesis by simp
  qed
qed

lemma fetch_one_failed:
  "fetch_one env i w = (Inl e, tr, w') \<Longrightarrow>
   tr = [EFetch (search_url i)] \<or> (\<exists>recent. tr = [EFetch (search_url i), EWriteFile (raw_path i) recent])"
  by (auto simp: fetch_one_def split: prod.splits sum.splits)

lemma clean_one_failed:
  "clean_one env i w = (Inl e, tr, w') \<Longrightarrow>
   tr = [EReadFile (raw_path i)]
   \<or> (\<exists>content. tr = [EReadFile (raw_path i), EWriteFile (stripped_path i) content])"
  by (auto simp: clean_one_def Let_def split: prod.splits sum.splits)

text \<open>
  Claim C6 (category independence of the fetch and clean stages), as amended. Let the
  categories 1 to 4 be split into those before category \<open>i\<close>, category \<open>i\<close>, and
  those after it. When the categories before \<open>i\<close> succeed and the iteration for
  \<open>i\<close> throws \<open>e\<close>, the stage ends there: the trace of \<open>getRecentData\<close>
  (of \<open>cleanData\<close>) is that of the earlier categories, then what the failed iteration
  did for category \<open>i\<close> alone, then the log of \<open>e\<close>, and the function returns
  normally. No later category is fetched or cleaned. The claim that the remaining sibling
  categories still proceed fails: the \<open>try\<close> block encloses the whole loop.
\<close>

theorem stage_abandoned_on_error:
  assumes "pre @ i # post = [1, 2, 3, 4]"
  shows "(ensure_raw env w = (Inr (), tr0, w0) \<longrightarrow> fetch_loop env pre w0 = (None, tr1, w1) \<longrightarrow>
          fetch_one env i w1 = (Inl e, tr2, w2) \<longrightarrow>
            getRecentData env w = (tr0 @ tr1 @ tr2 @ [ELogErr ''Error fetching recent data:'' e], w2)
            \<and> (tr2 = [EFetch (search_url i)]
               \<or> (\<exists>recent. tr2 = [EFetch (search_url i), EWriteFile (raw_path i) recent])))
       \<and> (clean_loop env pre w = (None, tr1, w1) \<longrightarrow> clean_one env i w1 = (Inl e, tr2, w2) \<longrightarrow>
            cleanData env w = (tr1 @ tr2 @ [ELogErr ''Error mapping test data:'' e], w2)
            \<and> (tr2 = [EReadFile (raw_path i)]
               \<or> (\<exists>content. tr2 = [EReadFile (raw_path i), EWriteFile (stripped_path i) content])))"
proof -
  have "getRecentData env w = (tr0 @ tr1 @ tr2 @ [ELogErr ''Error fetching recent data:'' e], w2)"
    if "ensure_raw env w = (Inr (), tr0, w0)" "fetch_loop env pre w0 = (None, tr1, w1)"
       "fetch_one env i w1 = (Inl e, tr2, w2)"
    using that fetch_loop_abandons [OF that(2,3), of post] assms [symmetric]
    by (simp add: getRecentData_def)
  moreover
  have "cleanData env w = (tr1 @ tr2 @ [ELogErr ''Error mapping test data:'' e], w2)"
    if "clean_loop env pre w = (None, tr1, w1)" "clean_one env i w1 = (Inl e, tr2, w2)"
    using clean_loop_abandons [OF that, of post] assms [symmetric]
    by (simp add: cleanData_def)
  ultimately show ?thesis
    using fetch_one_failed [of env i w1 e tr2 w2] clean_one_failed [of env i w1 e tr2 w2]
    by blast
qed

theorem stage_abandoned_on_error_witness:
  "[1] @ 2 # [3, 4] = [1, 2, 3, 4 :: nat]
   \<and> getRecentData (stage_env 2) 0
       = ([EFetch (search_url 1), EWriteFile (raw_path 1) (Some (JArr [recall 7])),
           ELog ('' - Created file: '' @ raw_path 1),
           EFetch (search_url 2),
           ELogErr ''Error fetching recent data:'' (IOError ''ETIMEDOUT'')], 1)
   \<and> cleanData (stage_env 2) 0
       = ([EReadFile (raw_path 1),
           EWriteFile (stripped_path 1) (Some (JArr [JObj [(''title'', JStr ''Recall'')]])),
           EReadFile (raw_path 2),
           ELogErr ''Error mapping test data:'' (IOError ''ENOENT'')], 1)"
proof -
  let ?env = "stage_env 2"
  have a: "[1] @ 2 # [3, 4] = [1, 2, 3, 4 :: nat]" by simp
  have r: "ensure_raw ?env 0 = (Inr (), [], 0)"
    by (simp add: ensure_raw_def stage_env_def)
  have f1: "fetch_loop ?env [1] 0
      = (None, [EFetch (search_url 1), EWriteFile (raw_path 1) (Some (JArr [recall 7])),
                ELog ('' - Created file: '' @ raw_path 1)], 1)"
    by code_simp
  have f2: "fetch_one ?env 2 1 = (Inl (IOError ''ETIMEDOUT''), [EFetch (search_url 2)], 1)"
    by (simp add: fetch_one_def stage_env_def)
  have c1: "clean_loop ?env [1] 0
      = (None, [EReadFile (raw_path 1),
                EWriteFile (stripped_path 1) (Some (JArr [JObj [(''title'', JStr ''Recall'')]]))], 1)"
    by code_simp
  have c2: "clean_one ?env 2 1 = (Inl (IOError ''ENOENT''), [EReadFile (raw_path 2)], 1)"
    by (simp add: clean_one_def stage_env_def)
  from stage_abandoned_on_error [OF a, THEN conjunct1, rule_format, OF r f1 f2]
  have g: "getRecentData ?env 0
       = ([] @ [EFetch (search_url 1), EWriteFile (raw_path 1) (Some (JArr [recall 7])),
           ELog ('' - Created file: '' @ raw_path 1)] @
           [EFetch (search_url 2)] @
           [ELogErr ''Error fetching recent data:'' (IOError ''ETIMEDOUT'')], 1)"
    by blast
  from stage_abandoned_on_error [OF a, THEN conjunct2, rule_format, OF c1 c2]
  have c: "cleanData ?env 0
       = ([EReadFile (raw_path 1),
           EWriteFile (stripped_path 1) (Some (JArr [JObj [(''title'', JStr ''Recall'')]]))] @
           [EReadFile (raw_path 2)] @
           [ELogErr ''Error mapping test data:'' (IOError ''ENOENT'')], 1)"
    by blast
  from a g c show ?thesis by simp
qed

theorem siblings_skipped_counterexample:
  "getRecentData (stage_env 1) 0
     = ([EFetch (search_url 1), ELogErr ''Error fetching recent data:'' (IOError ''ETIMEDOUT'')], 0)
   \<and> fst (fetch_one (stage_env 1) 2 0) = Inr ()
   \<and> cleanData (stage_env 1) 0
     = ([EReadFile (raw_path 1), ELogErr ''Error mapping test data:'' (IOError ''ENOENT'')], 0)
   \<and> fst (clean_one (stage_env 1) 2 0) = Inr ()"
  by code_simp

section \<open>The record mapper and the caller's object\<close>

text \<open>
  \<open>mapRequest\<close> receives a reference to the record, the one stored in the loader's
  \<open>data\<close> array. To see what it does to that object, the records live in a store
  from addresses to property lists (the properties of an object in enumeration order,
  with distinct names), and the data array is a list of addresses. The loop assigns
  \<^verbatim>\<open>Item[prop] = AWS.DynamoDB.Converter.input(Item[prop])\<close> for every property and
  returns \<open>Item\<close>. \<open>map_data\<close> is \<open>R.map\<close> calling \<open>mapRequest\<close> on each
  element of the array in turn.
\<close>

type_synonym addr = nat

type_synonym heap = "addr \<Rightarrow> (string \<times> json) list"

definition mapRequest :: "(json \<Rightarrow> json) \<Rightarrow> heap \<Rightarrow> addr \<Rightarrow> heap \<times> addr" where
  "mapRequest conv h Item = (h(Item := map (\<lambda>(prop, v). (prop, conv v)) (h Item)), Item)"

fun map_data :: "(json \<Rightarrow> json) \<Rightarrow> heap \<Rightarrow> addr list \<Rightarrow> heap \<times> addr list" where
  "map_data conv h [] = (h, [])"
| "map_data conv h (Item # rest) =
     (case mapRequest conv h Item of
        (h1, r) \<Rightarrow> (case map_data conv h1 rest of (h2, rs) \<Rightarrow> (h2, r # rs)))"

definition one_record :: heap where
  "one_record = (\<lambda>a. [(''recallId'', JStr ''RA-1'')])"

lemma map_data_frame:
  "map_data conv h items = (h', rs) \<Longrightarrow> rs = items \<and> (\<forall>b. b \<notin> set items \<longrightarrow> h' b = h b)"
proof (induction items arbitrary: h h' rs)
  case Nil
  then show ?case by simp
next
  case (Cons Item rest)
  obtain h2 rs2 where rec:
    "map_data conv (h(Item := map (\<lambda>(prop, v). (prop, conv v)) (h Item))) rest = (h2, rs2)"
    by (cases "map_data conv (h(Item := map (\<lambda>(prop, v). (prop, conv v)) (h Item))) rest") auto
  from Cons.IH [OF rec] Cons.prems rec show ?case
    by (auto simp: mapRequest_def)
qed

lemma map_data_converted:
  "distinct items \<Longrightarrow> map_data conv h items = (h', rs) \<Longrightarrow> a \<in> set items \<Longrightarrow>
   h' a = map (\<lambda>(prop, v). (prop, conv v)) (h a)"
proof (induction items arbitrary: h h' rs)
  case Nil
  then show ?case by simp
next
  case (Cons Item rest)
  let ?h1 = "h(Item := map (\<lambda>(prop, v). (prop, conv v)) (h Item))"
  obtain h2 rs2 where rec: "map_data conv ?h1 rest = (h2, rs2)"
    by (cases "map_data conv ?h1 rest") auto
  with Cons.prems(2) have h': "h' = h2" by (simp add: mapRequest_def)
  show ?case
  proof (cases "a = Item")
    case True
    with Cons.prems(1) have "a \<notin> set rest" by simp
    with map_data_frame [OF rec] have "h2 a = ?h1 a" by simp
    with True h' show ?thesis by simp
  next
    case False
    with Cons.prems(3) have "a \<in> set rest" by simp
    from Cons.IH [OF _ rec this] Cons.prems(1) have "h2 a = map (\<lambda>(prop, v). (prop, conv v)) (?h1 a)"
      by simp
    with False h' show ?thesis by simp
  qed
qed

text \<open>
  Claim C4 (record mapper), as amended. The mapper returns the reference it was given,
  after it has overwritten every property of that object with its wire-format value: the
  object the caller passed, which is the element of the loader's data array, holds the
  converted properties after the call, and its content after the call is the value
  \<open>mapRequest_value\<close> computes. No other object changes. After the mapping pass over
  a data array of distinct records, every element of the array is converted in place and
  everything outside the array is unchanged. The claim that the caller's record is
  unchanged fails: the mapper works by side effect.
\<close>

theorem mapRequest_overwrites:
  "(mapRequest conv h Item = (h', r) \<longrightarrow>
      r = Item
      \<and> h' Item = map (\<lambda>(prop, v). (prop, conv v)) (h Item)
      \<and> (\<forall>b. b \<noteq> Item \<longrightarrow> h' b = h b)
      \<and> mapRequest_value conv (JObj (h Item)) = Inr (JObj (h' r)))
   \<and> (distinct items \<longrightarrow> map_data conv h items = (h'', rs) \<longrightarrow>
      rs = items
      \<and> (\<forall>a \<in> set items. h'' a = map (\<lambda>(prop, v). (prop, conv v)) (h a))
      \<and> (\<forall>b. b \<notin> set items \<longrightarrow> h'' b = h b))"
proof -
  have "r = Item
      \<and> h' Item = map (\<lambda>(prop, v). (prop, conv v)) (h Item)
      \<and> (\<forall>b. b \<noteq> Item \<longrightarrow> h' b = h b)
      \<and> mapRequest_value conv (JObj (h Item)) = Inr (JObj (h' r))"
    if "mapRequest conv h Item = (h', r)"
    using that by (auto simp: mapRequest_def)
  moreover have "rs = items
      \<and> (\<forall>a \<in> set items. h'' a = map (\<lambda>(prop, v). (prop, conv v)) (h a))
      \<and> (\<forall>b. b \<notin> set items \<longrightarrow> h'' b = h b)"
    if "distinct items" "map_data conv h items = (h'', rs)"
    using map_data_frame [OF that(2)] map_data_converted [OF that] by blast
  ultimately show ?thesis by blast
qed

theorem mapRequest_overwrites_witness:
  "distinct [0, 1 :: nat]
   \<and> mapRequest converter_input one_record 0
       = (one_record(0 := [(''recallId'', JObj [(''S'', JStr ''RA-1'')])]), 0)
   \<and> mapRequest_value converter_input (JObj [(''recallId'', JStr ''RA-1'')])
       = Inr (JObj [(''recallId'', JObj [(''S'', JStr ''RA-1'')])])
   \<and> snd (map_data converter_input one_record [0, 1]) = [0, 1]
   \<and> fst (map_data converter_input one_record [0, 1]) 1 = [(''recallId'', JObj [(''S'', JStr ''RA-1'')])]
   \<and> fst (map_data converter_input one_record [0, 1]) 2 = [(''recallId'', JStr ''RA-1'')]"
proof -
  let ?h = "one_record(0 := [(''recallId'', JObj [(''S'', JStr ''RA-1'')])])"
  have d: "distinct [0, 1 :: nat]" by simp
  have m: "mapRequest converter_input one_record 0 = (?h, 0)"
    by (simp add: mapRequest_def one_record_def)
  obtain h2 rs where n: "map_data converter_input one_record [0, 1] = (h2, rs)"
    by (cases "map_data converter_input one_record [0, 1]")
  note first = mapRequest_overwrites [THEN conjunct1, rule_format, OF m]
  note second = mapRequest_overwrites [THEN conjunct2, rule_format, OF d n]
  from first have "mapRequest_value converter_input (JObj (one_record 0)) = Inr (JObj (?h 0))"
    by blast
  then have v: "mapRequest_value converter_input (JObj [(''recallId'', JStr ''RA-1'')])
       = Inr (JObj [(''recallId'', JObj [(''S'', JStr ''RA-1'')])])"
    by (simp add: one_record_def)
  from second have rs: "rs = [0, 1]" by blast
  from second have "h2 1 = map (\<lambda>(prop, v). (prop, converter_input v)) (one_record 1)"
    by simp
  then have e: "h2 1 = [(''recallId'', JObj [(''S'', JStr ''RA-1'')])]"
    by (simp add: one_record_def)
  from second have "h2 2 = one_record 2" by simp
  then have f: "h2 2 = [(''recallId'', JStr ''RA-1'')]" by (simp add: one_record_def)
  from d m v rs e f show ?thesis unfolding n by simp
qed

theorem mapRequest_mutates_counterexample:
  "fst (mapRequest converter_input one_record 0) 0 \<noteq> one_record 0"
  by (simp add: mapRequest_def one_record_def)

end
